theory Spec2Isabelle
  imports Main
begin

section \<open>Status normaliser (taskMasterClient.ts, normalizeStatus and denormalizeStatus)\<close>

text \<open>
  Both functions look a key up in an object literal and fall back with \<open>||\<close>:
  \<^verbatim>\<open>return statusMap[status] || 'todo';\<close> and \<^verbatim>\<open>return statusMap[status] || status;\<close>.
  An object literal inherits from \<open>Object.prototype\<close>, so \<open>statusMap[k]\<close> is the table's
  own entry when \<open>k\<close> is one of its keys, the inherited member when \<open>k\<close> names a member of
  \<open>Object.prototype\<close> (a function object, or the prototype object itself for
  \<open>__proto__\<close>; all of them truthy), and \<open>undefined\<close> otherwise. The result of a lookup is
  therefore either a string or such an inherited member.
\<close>

datatype js_value = Str string | Inherited string

definition object_prototype_members :: "string list" where
  "object_prototype_members =
     [''constructor'', ''hasOwnProperty'', ''isPrototypeOf'', ''propertyIsEnumerable'',
      ''toLocaleString'', ''toString'', ''valueOf'', ''__proto__'',
      ''__defineGetter__'', ''__defineSetter__'', ''__lookupGetter__'', ''__lookupSetter__'']"

definition normalize_statusMap :: "(string \<times> string) list" where
  "normalize_statusMap =
     [(''pending'', ''todo''),
      (''todo'', ''todo''),
      (''in-progress'', ''in-progress''),
      (''in_progress'', ''in-progress''),
      (''completed'', ''completed''),
      (''done'', ''completed''),
      (''blocked'', ''blocked''),
      (''deferred'', ''deferred''),
      (''cancelled'', ''cancelled''),
      (''review'', ''review'')]"

definition normalizeStatus :: "string \<Rightarrow> js_value" where
  "normalizeStatus status =
     (case map_of normalize_statusMap status of
        Some v \<Rightarrow> Str v
      | None \<Rightarrow>
          if status \<in> set object_prototype_members then Inherited status
          else Str ''todo'')"

definition denormalize_statusMap :: "(string \<times> string) list" where
  "denormalize_statusMap =
     [(''todo'', ''pending''),
      (''in-progress'', ''in-progress''),
      (''completed'', ''done''),
      (''blocked'', ''blocked''),
      (''deferred'', ''deferred''),
      (''cancelled'', ''cancelled''),
      (''review'', ''review'')]"

definition denormalizeStatus :: "string \<Rightarrow> js_value" where
  "denormalizeStatus status =
     (case map_of denormalize_statusMap status of
        Some v \<Rightarrow> Str v
      | None \<Rightarrow>
          if status \<in> set object_prototype_members then Inherited status
          else Str status)"

text \<open>
  Modelled from the spec: the \<open>TaskStatus\<close> type of types.ts, which is not among the
  sources. The spec's data model gives its values:
  \<open>enum{todo, in-progress, completed, blocked, deferred, cancelled, review}\<close>.
\<close>

definition TaskStatus_values :: "string list" where
  "TaskStatus_values =
     [''todo'', ''in-progress'', ''completed'', ''blocked'', ''deferred'', ''cancelled'',
      ''review'']"

text \<open>
  The functions applied to a value that is already the result of a lookup. The property
  key of an inherited member is its string conversion (the source text of a function such
  as \<open>function Object() { [native code] }\<close>, or \<open>[object Object]\<close>), which is neither a
  key of a table nor the name of a member of \<open>Object.prototype\<close>: the lookup is
  \<open>undefined\<close> and the fallback of \<open>||\<close> is taken.
\<close>

fun normalizeStatus_value :: "js_value \<Rightarrow> js_value" where
  "normalizeStatus_value (Str s) = normalizeStatus s"
| "normalizeStatus_value (Inherited k) = Str ''todo''"

fun denormalizeStatus_value :: "js_value \<Rightarrow> js_value" where
  "denormalizeStatus_value (Str s) = denormalizeStatus s"
| "denormalizeStatus_value (Inherited k) = Inherited k"

section \<open>Version compatibility gate (checkVersionCompatibility)\<close>

text \<open>
  \<open>parseCLIVersion\<close> searches the version string for the first match of
  \<^verbatim>\<open>/(\d+)\.(\d+)\.(\d+)/\<close>. \<open>\d+\<close> is greedy and a shorter run of digits is followed by
  a digit, never by the dot the pattern needs next, so a match that starts at a given
  position takes the maximal runs of digits there; the search tries the start positions
  from left to right.

  The segments are read by \<open>parseInt\<close>, whose result is a Number: the double nearest to
  the integer that the digits denote, ties going to the even significand, and \<open>Infinity\<close>
  when that integer lies beyond the doubles (the language lets an implementation ignore
  the digits after the twentieth; the engines round correctly). The Numbers that occur
  here are the non-negative integral doubles and \<open>Infinity\<close>.
\<close>

datatype js_number = Finite nat | Infinity

fun bit_length :: "nat \<Rightarrow> nat" where
  "bit_length n = (if n = 0 then 0 else Suc (bit_length (n div 2)))"

definition to_double :: "nat \<Rightarrow> js_number" where
  "to_double n =
     (if n < 2 ^ 53 then Finite n
      else
        (let e = bit_length n - 53;
             q = n div 2 ^ e;
             r = n mod 2 ^ e;
             q' = (if 2 ^ (e - 1) < r \<or> (r = 2 ^ (e - 1) \<and> odd q) then q + 1 else q)
         in if 1024 < bit_length (q' * 2 ^ e) then Infinity else Finite (q' * 2 ^ e)))"

definition isDigit :: "char \<Rightarrow> bool" where
  "isDigit c = (c \<in> set ''0123456789'')"

definition digitVal :: "char \<Rightarrow> nat" where
  "digitVal c = (of_char c - of_char CHR ''0'')"

definition digits_value :: "string \<Rightarrow> nat" where
  "digits_value ds = foldl (\<lambda>n c. 10 * n + digitVal c) 0 ds"

definition parseInt :: "string \<Rightarrow> js_number" where
  "parseInt ds = to_double (digits_value ds)"

text \<open>
  The test \<^verbatim>\<open>Math.abs(a - b) > t\<close> on two such Numbers. The difference of two integral
  doubles is the double nearest to their exact difference; rounding is monotone and
  leaves the integers up to \<open>2 ^ 53\<close> as they are, so the comparison with a small \<open>t\<close> is
  the comparison of the exact difference. \<open>Infinity - Infinity\<close> is \<open>NaN\<close>, and \<open>NaN > t\<close>
  is false; a difference with exactly one \<open>Infinity\<close> is infinite.
\<close>

fun abs_difference_exceeds :: "js_number \<Rightarrow> js_number \<Rightarrow> nat \<Rightarrow> bool" where
  "abs_difference_exceeds (Finite x) (Finite y) t = (t < (if x \<le> y then y - x else x - y))"
| "abs_difference_exceeds Infinity Infinity t = False"
| "abs_difference_exceeds a b t = True"

definition match_here :: "string \<Rightarrow> (string \<times> string \<times> string) option" where
  "match_here s =
     (let d1 = takeWhile isDigit s; r1 = dropWhile isDigit s in
      if d1 = [] then None
      else (case r1 of
              [] \<Rightarrow> None
            | c1 # s2 \<Rightarrow>
                if c1 \<noteq> CHR ''.'' then None
                else (let d2 = takeWhile isDigit s2; r2 = dropWhile isDigit s2 in
                      if d2 = [] then None
                      else (case r2 of
                              [] \<Rightarrow> None
                            | c2 # s3 \<Rightarrow>
                                if c2 \<noteq> CHR ''.'' then None
                                else (let d3 = takeWhile isDigit s3 in
                                      if d3 = [] then None else Some (d1, d2, d3))))))"

fun match_first :: "string \<Rightarrow> (string \<times> string \<times> string) option" where
  "match_first [] = None"
| "match_first (c # cs) =
     (case match_here (c # cs) of
        Some m \<Rightarrow> Some m
      | None \<Rightarrow> match_first cs)"

definition parseCLIVersion :: "string \<Rightarrow> js_number \<times> js_number \<times> js_number" where
  "parseCLIVersion v =
     (case match_first v of
        Some (a, b, c) \<Rightarrow> (parseInt a, parseInt b, parseInt c)
      | None \<Rightarrow> (Finite 0, Finite 0, Finite 0))"

definition major :: "string \<Rightarrow> js_number" where
  "major v = fst (parseCLIVersion v)"

definition minor :: "string \<Rightarrow> js_number" where
  "minor v = fst (snd (parseCLIVersion v))"

record VersionCheck =
  compatible :: bool
  cliVersion :: "string option"
  mcpVersion :: "string option"
  warning :: "string option"

text \<open>
  \<open>getMCPVersion\<close>: \<open>null\<close> when \<open>isMCPServerAvailable()\<close> is false or a call throws;
  otherwise \<^verbatim>\<open>result || 'unknown'\<close>, where \<open>result\<close> is what \<^verbatim>\<open>mcpClient.getVersion?.()\<close>
  gave, \<open>undefined\<close> (here \<open>None\<close>) when the client has no such method or it returns
  nothing.
\<close>

datatype mcp_version_probe =
    ServerUnavailable
  | GetVersionThrows
  | GetVersionReturns "string option"

definition getMCPVersion :: "mcp_version_probe \<Rightarrow> string option" where
  "getMCPVersion probe =
     (case probe of
        ServerUnavailable \<Rightarrow> None
      | GetVersionThrows \<Rightarrow> None
      | GetVersionReturns result \<Rightarrow>
          Some (case result of
                  None \<Rightarrow> ''unknown''
                | Some v \<Rightarrow> if v = [] then ''unknown'' else v))"

text \<open>
  The two arguments of \<open>checkVersionCompatibility\<close> are what \<open>getCLIVersion()\<close> and
  \<open>getMCPVersion()\<close> returned: \<open>None\<close> is \<open>null\<close>. The tests \<open>!cliVersion\<close> and
  \<open>!mcpVersion\<close> also hold for the empty string.
\<close>

definition falsy_version :: "string option \<Rightarrow> bool" where
  "falsy_version v = (v = None \<or> v = Some [])"

definition checkVersionCompatibility :: "string option \<Rightarrow> string option \<Rightarrow> VersionCheck" where
  "checkVersionCompatibility cliV mcpV =
     (if falsy_version cliV \<and> falsy_version mcpV then
        \<lparr>compatible = True, cliVersion = None, mcpVersion = None,
         warning = Some ''Unable to determine version compatibility - both CLI and MCP unavailable''\<rparr>
      else if falsy_version cliV then
        \<lparr>compatible = True, cliVersion = None, mcpVersion = mcpV,
         warning = Some ''CLI not available, using MCP only''\<rparr>
      else if falsy_version mcpV then
        \<lparr>compatible = True, cliVersion = cliV, mcpVersion = None,
         warning = Some ''MCP not available, using CLI only''\<rparr>
      else
        (let c = the cliV; m = the mcpV in
         if major c \<noteq> major m then
           \<lparr>compatible = False, cliVersion = cliV, mcpVersion = mcpV,
            warning = Some (''Major version mismatch: CLI v'' @ c @ '' vs MCP v'' @ m @
                            ''. This may cause data inconsistencies.'')\<rparr>
         else if abs_difference_exceeds (minor c) (minor m) 20 then
           \<lparr>compatible = False, cliVersion = cliV, mcpVersion = mcpV,
            warning = Some (''Significant version difference: CLI v'' @ c @ '' vs MCP v'' @ m @
                            ''. Consider updating both to the same version.'')\<rparr>
         else
           \<lparr>compatible = True, cliVersion = cliV, mcpVersion = mcpV, warning = None\<rparr>))"

section \<open>Parsed JSON documents\<close>

text \<open>
  The value \<open>JSON.parse\<close> returns. The code uses a number in two ways only: it prints it
  with \<open>toString\<close> and it tests it for zero. A number is therefore given by the text that
  \<open>Number.prototype.toString\<close> prints for it, such as \<open>1\<close>, \<open>-3\<close>, \<open>1.5\<close> or \<open>1e+21\<close>;
  both zeros print as \<open>0\<close>. An object is the list of its own properties in order, their
  names distinct. A property that is absent reads as \<open>undefined\<close>, which is \<open>None\<close> here.
\<close>

datatype json =
    JNull
  | JBool bool
  | JNum string
  | JStr string
  | JArr "json list"
  | JObj "(string \<times> json) list"

datatype error =
    TypeError
  | UnknownFormat
  | NoTasksFound string
  | TasksJsonNotFound
  | SyntaxError
  | TaskNotFound string

text \<open>
  \<open>TypeError\<close> is what the runtime throws on a property read of \<open>null\<close> or \<open>undefined\<close>,
  on a call of something that is not a function and on iterating something that is not
  iterable. The others are the code's own
  \<^verbatim>\<open>Error('Unknown tasks.json format')\<close>,
  \<^verbatim>\<open>Error(`No tasks found in tag '${currentTag}' or 'master' tag.`)\<close>,
  \<^verbatim>\<open>Error('tasks.json not found')\<close>, the \<open>SyntaxError\<close> of \<open>JSON.parse\<close> and
  \<^verbatim>\<open>Error(`Task with ID ${taskId} not found.`)\<close>.
\<close>

fun truthy :: "json \<Rightarrow> bool" where
  "truthy JNull = False"
| "truthy (JBool b) = b"
| "truthy (JNum n) = (n \<noteq> ''0'')"
| "truthy (JStr s) = (s \<noteq> [])"
| "truthy (JArr xs) = True"
| "truthy (JObj kvs) = True"

text \<open>
  The property name of an array index: its decimal digits, most significant first.
\<close>

definition digit_char :: "nat \<Rightarrow> char" where
  "digit_char d = ''0123456789'' ! d"

fun decimal_digits :: "nat \<Rightarrow> string \<Rightarrow> string" where
  "decimal_digits n acc =
     (if n < 10 then digit_char n # acc
      else decimal_digits (n div 10) (digit_char (n mod 10) # acc))"

definition nat_toString :: "nat \<Rightarrow> string" where
  "nat_toString n = decimal_digits n []"

text \<open>
  \<open>get v k\<close> is the read \<open>v[k]\<close> of a value \<open>v\<close> that is not \<open>null\<close>: an own property of
  an object, an element of an array when \<open>k\<close> is the decimal form of an index. Every other
  read the code makes (of a member inherited from a prototype, of a property of a number,
  a boolean or a string) gives \<open>undefined\<close> or a value without the properties \<open>tasks\<close>,
  \<open>id\<close> and \<open>subtasks\<close> that the code goes on to read, and is \<open>None\<close>.
\<close>

fun get :: "json \<Rightarrow> string \<Rightarrow> json option" where
  "get (JObj kvs) k = map_of kvs k"
| "get (JArr xs) k = map_of (zip (map nat_toString [0..<length xs]) xs) k"
| "get v k = None"

fun isArray :: "json \<Rightarrow> bool" where
  "isArray (JArr xs) = True"
| "isArray v = False"

fun typeof_object :: "json \<Rightarrow> bool" where
  "typeof_object JNull = True"
| "typeof_object (JArr xs) = True"
| "typeof_object (JObj kvs) = True"
| "typeof_object v = False"

text \<open>
  The test \<^verbatim>\<open>x && x.tasks && Array.isArray(x.tasks)\<close> on the value \<open>x\<close> of a property read;
  when it holds, the array \<open>x.tasks\<close>.
\<close>

definition tasks_of :: "json option \<Rightarrow> json list option" where
  "tasks_of x =
     (case x of
        None \<Rightarrow> None
      | Some d \<Rightarrow>
          if truthy d then
            (case get d ''tasks'' of
               Some (JArr ts) \<Rightarrow> Some ts
             | _ \<Rightarrow> None)
          else None)"

section \<open>Format extractor (extractTasksFromContainer)\<close>

text \<open>
  The persisted session state is the value of \<open>stateData.currentTag\<close> in state.json:
  \<open>None\<close> when the file is missing or unreadable or has no such property, a string
  otherwise. \<^verbatim>\<open>currentTag = stateData.currentTag || 'master'\<close>.
\<close>

definition state_currentTag :: "string option \<Rightarrow> string" where
  "state_currentTag st =
     (case st of
        None \<Rightarrow> ''master''
      | Some t \<Rightarrow> if t = [] then ''master'' else t)"

record extracted =
  tasks :: "json list"
  isTaggedFormat :: bool
  currentTag :: string
  originalContainer :: json

definition is_direct_tag :: "json \<Rightarrow> bool" where
  "is_direct_tag c = (tasks_of (get c ''master'') \<noteq> None)"

definition nested_tags :: "json \<Rightarrow> json option" where
  "nested_tags c =
     (case get c ''tags'' of
        None \<Rightarrow> None
      | Some t \<Rightarrow> if truthy t \<and> typeof_object t then Some t else None)"

definition legacy_tasks :: "json \<Rightarrow> json list option" where
  "legacy_tasks c =
     (case get c ''tasks'' of
        Some (JArr ts) \<Rightarrow> Some ts
      | _ \<Rightarrow> None)"

definition extract_tagged :: "json \<Rightarrow> json \<Rightarrow> string option \<Rightarrow> error + extracted" where
  "extract_tagged c tagsObj st =
     (let tag = state_currentTag st in
      case tasks_of (get tagsObj tag) of
        Some ts \<Rightarrow>
          Inr \<lparr>tasks = ts, isTaggedFormat = True, currentTag = tag, originalContainer = c\<rparr>
      | None \<Rightarrow>
          (case tasks_of (get tagsObj ''master'') of
             Some ts \<Rightarrow>
               Inr \<lparr>tasks = ts, isTaggedFormat = True, currentTag = ''master'',
                    originalContainer = c\<rparr>
           | None \<Rightarrow> Inl (NoTasksFound tag)))"

definition extractTasksFromContainer :: "json \<Rightarrow> string option \<Rightarrow> error + extracted" where
  "extractTasksFromContainer tasksContainer st =
     (case tasksContainer of
        JArr ts \<Rightarrow>
          Inr \<lparr>tasks = ts, isTaggedFormat = False, currentTag = ''master'',
               originalContainer = tasksContainer\<rparr>
      | JNull \<Rightarrow> Inl TypeError
      | _ \<Rightarrow>
          if is_direct_tag tasksContainer then
            extract_tagged tasksContainer tasksContainer st
          else
            (case nested_tags tasksContainer of
               Some t \<Rightarrow> extract_tagged tasksContainer t st
             | None \<Rightarrow>
                 (case legacy_tasks tasksContainer of
                    Some ts \<Rightarrow>
                      Inr \<lparr>tasks = ts, isTaggedFormat = False, currentTag = ''master'',
                           originalContainer = tasksContainer\<rparr>
                  | None \<Rightarrow> Inl UnknownFormat)))"

text \<open>
  The same detection inside \<open>getTasks\<close> (its lines 156 to 232), which computes
  \<open>rawTasks\<close>: there an unknown format and a tag without tasks are logged and give the
  empty list; the read of a property of \<open>null\<close> throws into the \<open>catch\<close> of \<open>getTasks\<close>.
\<close>

definition getTasks_tagged :: "json \<Rightarrow> string option \<Rightarrow> json list" where
  "getTasks_tagged tagsObj st =
     (case tasks_of (get tagsObj (state_currentTag st)) of
        Some ts \<Rightarrow> ts
      | None \<Rightarrow>
          (case tasks_of (get tagsObj ''master'') of
             Some ts \<Rightarrow> ts
           | None \<Rightarrow> []))"

definition getTasks_rawTasks :: "json \<Rightarrow> string option \<Rightarrow> error + json list" where
  "getTasks_rawTasks parsed st =
     (case parsed of
        JArr ts \<Rightarrow> Inr ts
      | JNull \<Rightarrow> Inl TypeError
      | _ \<Rightarrow>
          if is_direct_tag parsed then Inr (getTasks_tagged parsed st)
          else
            (case nested_tags parsed of
               Some t \<Rightarrow> Inr (getTasks_tagged t st)
             | None \<Rightarrow>
                 (case legacy_tasks parsed of
                    Some ts \<Rightarrow> Inr ts
                  | None \<Rightarrow> Inr [])))"

text \<open>
  The four supported shapes, in the words of the specification: a flat array; direct-tag,
  a \<open>master\<close> key holding a \<open>tasks\<close> array; nested-tag, a \<open>tags\<close> object (an object in the
  sense of the language: an object or an array, not \<open>null\<close>); legacy, a top-level \<open>tasks\<close>
  array.
\<close>

fun is_object :: "json \<Rightarrow> bool" where
  "is_object (JObj kvs) = True"
| "is_object (JArr xs) = True"
| "is_object v = False"

definition holds_tasks_array :: "json \<Rightarrow> bool" where
  "holds_tasks_array d = (case get d ''tasks'' of None \<Rightarrow> False | Some t \<Rightarrow> isArray t)"

definition shape_flat :: "json \<Rightarrow> bool" where
  "shape_flat d = isArray d"

definition shape_direct_tag :: "json \<Rightarrow> bool" where
  "shape_direct_tag d = (case get d ''master'' of None \<Rightarrow> False | Some m \<Rightarrow> holds_tasks_array m)"

definition shape_nested_tag :: "json \<Rightarrow> bool" where
  "shape_nested_tag d = (case get d ''tags'' of None \<Rightarrow> False | Some t \<Rightarrow> is_object t)"

definition shape_legacy :: "json \<Rightarrow> bool" where
  "shape_legacy d = holds_tasks_array d"

section \<open>Task search and update (the loops of setTaskStatus)\<close>

text \<open>
  The string the runtime gives for \<open>v.toString()\<close>. On \<open>null\<close> the call throws. An
  array is joined with commas, \<open>null\<close> elements giving the empty string. An object prints
  as \<open>[object Object]\<close>, unless it has an own property \<open>toString\<close>, which in a parsed
  document is never a function: the call (or, inside an array, the conversion to a
  primitive) then throws.
\<close>

fun toString :: "json \<Rightarrow> error + string"
  and join :: "json list \<Rightarrow> error + string" where
  "toString JNull = Inl TypeError"
| "toString (JBool b) = Inr (if b then ''true'' else ''false'')"
| "toString (JNum n) = Inr n"
| "toString (JStr s) = Inr s"
| "toString (JArr xs) = join xs"
| "toString (JObj kvs) =
     (if map_of kvs ''toString'' = None then Inr ''[object Object]'' else Inl TypeError)"
| "join [] = Inr []"
| "join (x # xs) =
     (case (if x = JNull then Inr [] else toString x) of
        Inl e \<Rightarrow> Inl e
      | Inr s \<Rightarrow>
          (case join xs of
             Inl e \<Rightarrow> Inl e
           | Inr r \<Rightarrow> Inr (if xs = [] then s else s @ '','' @ r)))"

text \<open>\<^verbatim>\<open>item.id.toString()\<close>, the expression both loops of \<open>setTaskStatus\<close> compare with \<open>taskId\<close>.\<close>

definition idString :: "json \<Rightarrow> error + string" where
  "idString item =
     (if item = JNull then Inl TypeError
      else (case get item ''id'' of
              None \<Rightarrow> Inl TypeError
            | Some v \<Rightarrow> toString v))"

text \<open>
  \<open>assign d k v\<close> is the value \<open>d\<close> after \<open>d[k] = v\<close>: an existing property keeps its place,
  a new one goes last. The code mutates the parsed document in place; here each function
  returns the rebuilt value. \<open>assign_value\<close> is the assignment of the result of a status
  lookup as it reaches the file: \<open>JSON.stringify\<close> leaves out a property whose value is a
  function and writes \<open>Object.prototype\<close> as \<open>{}\<close>.
\<close>

fun set_property :: "string \<Rightarrow> json \<Rightarrow> (string \<times> json) list \<Rightarrow> (string \<times> json) list" where
  "set_property k v [] = [(k, v)]"
| "set_property k v (p # ps) = (if fst p = k then (k, v) # ps else p # set_property k v ps)"

fun assign :: "json \<Rightarrow> string \<Rightarrow> json \<Rightarrow> json" where
  "assign (JObj kvs) k v = JObj (set_property k v kvs)"
| "assign (JArr xs) k v =
     JArr (map (\<lambda>(i, x). if nat_toString i = k then v else x) (zip [0..<length xs] xs))"
| "assign d k v = d"

fun assign_value :: "json \<Rightarrow> string \<Rightarrow> js_value \<Rightarrow> json" where
  "assign_value d k (Str s) = assign d k (JStr s)"
| "assign_value (JObj kvs) k (Inherited m) =
     (if m = ''__proto__'' then JObj (set_property k (JObj []) kvs)
      else JObj (filter (\<lambda>p. fst p \<noteq> k) kvs))"
| "assign_value d k (Inherited m) = d"

text \<open>
  The loop \<^verbatim>\<open>for (const t of list) if (t.id.toString() === taskId) { t.status = ...;
  t.updated = new Date().toISOString(); taskUpdated = true; break }\<close>, which the code runs
  over the main tasks and, with \<open>return\<close> for \<open>break\<close>, over the subtasks of an item. The
  result is \<open>Some\<close> of the updated list when an entry matched and \<open>None\<close> when none did.
\<close>

fun update_first :: "string \<Rightarrow> js_value \<Rightarrow> string \<Rightarrow> json list \<Rightarrow> error + json list option" where
  "update_first taskId v now [] = Inr None"
| "update_first taskId v now (t # ts) =
     (case idString t of
        Inl e \<Rightarrow> Inl e
      | Inr i \<Rightarrow>
          if i = taskId then
            Inr (Some (assign (assign_value t ''status'' v) ''updated'' (JStr now) # ts))
          else
            (case update_first taskId v now ts of
               Inl e \<Rightarrow> Inl e
             | Inr None \<Rightarrow> Inr None
             | Inr (Some ts') \<Rightarrow> Inr (Some (t # ts'))))"

lemma size_map_of: "map_of kvs k = Some v \<Longrightarrow> size v < Suc (size_list (size_prod (\<lambda>_. 0) size) kvs)"
  by (induction kvs) (auto split: if_splits)

lemma size_in_set: "v \<in> set xs \<Longrightarrow> size v < Suc (size_list size xs)"
  by (induction xs) auto

lemma size_get: "get d k = Some v \<Longrightarrow> size v < size d"
proof (cases d)
  case (JArr xs)
  assume "get d k = Some v"
  then have "v \<in> set xs" using JArr by (auto dest!: map_of_SomeD set_zip_rightD)
  then show ?thesis using JArr size_in_set [of v xs] by simp
qed (auto dest: size_map_of)

lemma size_get_JArr: "get d k = Some (JArr xs) \<Longrightarrow> size_list size xs < size d"
  using size_get [of d k "JArr xs"] by simp

text \<open>
  The closure \<open>updateSubtaskRecursive\<close> of \<open>setTaskStatus\<close>. A truthy \<open>subtasks\<close> that is
  not an array makes \<open>for ... of\<close> throw (it is not iterable, or, for a string, its
  characters have no \<open>id\<close>).
\<close>

function updateSubtaskRecursive ::
  "string \<Rightarrow> js_value \<Rightarrow> string \<Rightarrow> json list \<Rightarrow> error + json list option" where
  "updateSubtaskRecursive taskId v now [] = Inr None"
| "updateSubtaskRecursive taskId v now (item # rest) =
     (if item = JNull then Inl TypeError
      else
        (case (case get item ''subtasks'' of
                 None \<Rightarrow> Inr None
               | Some s \<Rightarrow>
                   if \<not> truthy s then Inr None
                   else
                     (case s of
                        JArr subs \<Rightarrow>
                          (case update_first taskId v now subs of
                             Inl e \<Rightarrow> Inl e
                           | Inr (Some subs') \<Rightarrow> Inr (Some subs')
                           | Inr None \<Rightarrow> updateSubtaskRecursive taskId v now subs)
                      | _ \<Rightarrow> Inl TypeError)) of
           Inl e \<Rightarrow> Inl e
         | Inr (Some subs') \<Rightarrow> Inr (Some (assign item ''subtasks'' (JArr subs') # rest))
         | Inr None \<Rightarrow>
             (case updateSubtaskRecursive taskId v now rest of
                Inl e \<Rightarrow> Inl e
              | Inr None \<Rightarrow> Inr None
              | Inr (Some rest') \<Rightarrow> Inr (Some (item # rest')))))"
  by pat_completeness auto
termination
  by (relation "measure (\<lambda>(taskId, v, now, items). size_list size items)")
    (auto dest: size_get_JArr)

section \<open>Write-back (writeTasksToContainer) and setTaskStatus\<close>

text \<open>
  \<open>set_tasks x ts\<close> is \<open>x\<close> after \<^verbatim>\<open>x.tasks = tasks\<close> (on an array the assignment adds a
  named property, which is not part of the document; on a primitive it throws in strict
  mode); \<open>set_tag_tasks\<close> is the container of the tags after
  \<^verbatim>\<open>container[currentTag].tasks = tasks\<close>, which throws when the tag is absent.
  \<open>writeTasksToContainer\<close> tests for a \<open>tags\<close> object first, as the code does, whatever
  shape the extractor had found.
\<close>

definition set_tasks :: "json \<Rightarrow> json list \<Rightarrow> error + json" where
  "set_tasks x ts =
     (case x of
        JObj kvs \<Rightarrow> Inr (JObj (set_property ''tasks'' (JArr ts) kvs))
      | JArr xs \<Rightarrow> Inr (JArr xs)
      | _ \<Rightarrow> Inl TypeError)"

definition set_tag_tasks :: "json \<Rightarrow> string \<Rightarrow> json list \<Rightarrow> error + json" where
  "set_tag_tasks tagsObj tag ts =
     (case get tagsObj tag of
        None \<Rightarrow> Inl TypeError
      | Some x \<Rightarrow>
          (case set_tasks x ts of
             Inl e \<Rightarrow> Inl e
           | Inr x' \<Rightarrow> Inr (assign tagsObj tag x')))"

definition writeTasksToContainer :: "json list \<Rightarrow> bool \<Rightarrow> string \<Rightarrow> json \<Rightarrow> error + json" where
  "writeTasksToContainer ts tagged tag orig =
     (if tagged then
        (case nested_tags orig of
           Some t \<Rightarrow>
             (case set_tag_tasks t tag ts of
                Inl e \<Rightarrow> Inl e
              | Inr t' \<Rightarrow> Inr (assign orig ''tags'' t'))
         | None \<Rightarrow> set_tag_tasks orig tag ts)
      else if isArray orig then Inr (JArr ts)
      else Inr (assign orig ''tasks'' (JArr ts)))"

text \<open>
  What the environment decides: whether \<open>isMCPServerAvailable()\<close> holds and, if so,
  whether \<open>mcpClient.setTaskStatus\<close> resolves or throws; and tasks.json, which is missing,
  not parsable, or holds a document. The result lists the channels that were given the
  operation, in order. When the protocol call resolves the code returns at once and does
  not touch the file itself.
\<close>

datatype mcp_outcome = McpUnavailable | McpFails | McpSucceeds

datatype tasks_file = Missing | Unparsable | Content json

datatype channel = Protocol | CLI | DirectFile

text \<open>
  The task objects and the array \<open>tasks\<close> that \<open>setTaskStatus\<close> mutates are the ones inside
  the parsed container, so when \<open>writeTasksToContainer\<close> is called the container already
  holds the updated list at the place the extractor read it from. \<open>mutated_in_place\<close> is
  that container; \<open>write_back\<close> then runs \<open>writeTasksToContainer\<close> on it and the file
  receives the result, or stays as it was when the write throws.
\<close>

definition mutated_in_place :: "json \<Rightarrow> extracted \<Rightarrow> json list \<Rightarrow> json" where
  "mutated_in_place c ex ts =
     (case c of
        JArr old \<Rightarrow> JArr ts
      | _ \<Rightarrow>
          if is_direct_tag c then
            (case set_tag_tasks c (currentTag ex) ts of Inr c' \<Rightarrow> c' | Inl e \<Rightarrow> c)
          else
            (case nested_tags c of
               Some t \<Rightarrow>
                 (case set_tag_tasks t (currentTag ex) ts of
                    Inr t' \<Rightarrow> assign c ''tags'' t'
                  | Inl e \<Rightarrow> c)
             | None \<Rightarrow> assign c ''tasks'' (JArr ts)))"

definition write_back ::
  "json list \<Rightarrow> extracted \<Rightarrow> json \<Rightarrow> tasks_file \<Rightarrow> channel list \<Rightarrow>
     (error + unit) \<times> tasks_file \<times> channel list" where
  "write_back ts ex c old tr =
     (case writeTasksToContainer ts (isTaggedFormat ex) (currentTag ex)
             (mutated_in_place c ex ts) of
        Inl e \<Rightarrow> (Inl e, old, tr)
      | Inr c' \<Rightarrow> (Inr (), Content c', tr))"

definition setTaskStatus_file ::
  "tasks_file \<Rightarrow> string option \<Rightarrow> string \<Rightarrow> string \<Rightarrow> string \<Rightarrow> channel list \<Rightarrow>
     (error + unit) \<times> tasks_file \<times> channel list" where
  "setTaskStatus_file tasksJson st now taskId status tr =
     (case tasksJson of
        Missing \<Rightarrow> (Inl TasksJsonNotFound, tasksJson, tr)
      | Unparsable \<Rightarrow> (Inl SyntaxError, tasksJson, tr)
      | Content tasksContainer \<Rightarrow>
          (case extractTasksFromContainer tasksContainer st of
             Inl e \<Rightarrow> (Inl e, tasksJson, tr)
           | Inr ex \<Rightarrow>
               (case update_first taskId (denormalizeStatus status) now (tasks ex) of
                  Inl e \<Rightarrow> (Inl e, tasksJson, tr)
                | Inr (Some ts') \<Rightarrow> write_back ts' ex tasksContainer tasksJson tr
                | Inr None \<Rightarrow>
                    (case updateSubtaskRecursive taskId (denormalizeStatus status) now (tasks ex) of
                       Inl e \<Rightarrow> (Inl e, tasksJson, tr)
                     | Inr (Some ts') \<Rightarrow> write_back ts' ex tasksContainer tasksJson tr
                     | Inr None \<Rightarrow> (Inl (TaskNotFound taskId), tasksJson, tr)))))"

definition setTaskStatus ::
  "mcp_outcome \<Rightarrow> tasks_file \<Rightarrow> string option \<Rightarrow> string \<Rightarrow> string \<Rightarrow> string \<Rightarrow>
     (error + unit) \<times> tasks_file \<times> channel list" where
  "setTaskStatus mcp tasksJson st now taskId status =
     (case mcp of
        McpSucceeds \<Rightarrow> (Inr (), tasksJson, [Protocol])
      | McpFails \<Rightarrow> setTaskStatus_file tasksJson st now taskId status [Protocol, DirectFile]
      | McpUnavailable \<Rightarrow> setTaskStatus_file tasksJson st now taskId status [DirectFile])"

text \<open>
  Every entry of a task list at every nesting level: the entries of the list and, for each
  entry whose \<open>subtasks\<close> is an array, the entries of that array at every level.
  \<open>well_formed\<close>: every such entry has an \<open>id\<close> that prints, and every \<open>subtasks\<close> is an
  array or falsy.
\<close>

function items_of :: "json list \<Rightarrow> json list" where
  "items_of [] = []"
| "items_of (t # ts) =
     t # (case get t ''subtasks'' of
            Some (JArr subs) \<Rightarrow> items_of subs
          | _ \<Rightarrow> []) @ items_of ts"
  by pat_completeness auto
termination
  by (relation "measure (size_list size)") (auto dest: size_get_JArr)


text \<open>
  The task list of the active tag in the stored document (empty when there is no document
  of a supported shape), and whether there is such a document.
\<close>

definition stored_tasks :: "tasks_file \<Rightarrow> string option \<Rightarrow> json list" where
  "stored_tasks f st =
     (case f of
        Content c \<Rightarrow>
          (case extractTasksFromContainer c st of
             Inr ex \<Rightarrow> tasks ex
           | Inl e \<Rightarrow> [])
      | _ \<Rightarrow> [])"


section \<open>Channel selection of getTasks\<close>

text \<open>
  The control flow of \<open>getTasks\<close>. The environment decides the version check, the
  preference \<open>preferCLIOnVersionMismatch\<close>, and the protocol channel: unavailable,
  throwing, returning something \<open>validateTasksResponse\<close> rejects, or returning a list it
  accepts (the validated list is the argument). The result says where the tasks came
  from: the validated protocol list, the list \<open>rawTasks\<close> detected in tasks.json (which
  the code goes on to normalise and to pass to \<open>processTaskHierarchy\<close>), the individual
  task files, or the empty list of the \<open>catch\<close>.
\<close>

datatype 'a mcp_read = ReadUnavailable | ReadFails | ReadInvalid | ReadValid 'a

datatype 'a read_result = FromProtocol 'a | FromTasksJson "json list" | FromTaskFiles | Caught error

definition shouldSkipMCP :: "VersionCheck \<Rightarrow> bool \<Rightarrow> bool" where
  "shouldSkipMCP versionCheck preferCLI =
     (\<not> compatible versionCheck \<and> preferCLI \<and> cliVersion versionCheck \<noteq> None)"

definition getTasks_file :: "tasks_file \<Rightarrow> string option \<Rightarrow> channel list \<Rightarrow> 'a read_result \<times> channel list" where
  "getTasks_file tasksJson st tr =
     (case tasksJson of
        Missing \<Rightarrow> (FromTaskFiles, tr @ [DirectFile])
      | Unparsable \<Rightarrow> (Caught SyntaxError, tr @ [DirectFile])
      | Content parsed \<Rightarrow>
          (case getTasks_rawTasks parsed st of
             Inl e \<Rightarrow> (Caught e, tr @ [DirectFile])
           | Inr rawTasks \<Rightarrow> (FromTasksJson rawTasks, tr @ [DirectFile])))"

definition getTasks ::
  "VersionCheck \<Rightarrow> bool \<Rightarrow> 'a mcp_read \<Rightarrow> tasks_file \<Rightarrow> string option \<Rightarrow>
     'a read_result \<times> channel list" where
  "getTasks versionCheck preferCLI mcp tasksJson st =
     (if shouldSkipMCP versionCheck preferCLI then getTasks_file tasksJson st []
      else
        (case mcp of
           ReadUnavailable \<Rightarrow> getTasks_file tasksJson st []
         | ReadValid validatedTasks \<Rightarrow> (FromProtocol validatedTasks, [Protocol])
         | ReadFails \<Rightarrow> getTasks_file tasksJson st [Protocol]
         | ReadInvalid \<Rightarrow> getTasks_file tasksJson st [Protocol]))"

section \<open>Canonical tasks and getTaskProgress\<close>

text \<open>
  The \<open>Task\<close> objects that \<open>getTasks\<close> returns and that \<open>processTaskHierarchy\<close> and
  \<open>getTaskProgress\<close> take. The type \<open>Task\<close> is declared in types.ts, which is not among
  the sources: the fields the two functions read or write (\<open>id\<close>, \<open>status\<close>, \<open>parentId\<close>,
  \<open>subtasks\<close>) are explicit, and all the other fields, which are only copied, are the
  parameter \<open>'a\<close>. A missing \<open>subtasks\<close> is the empty list. The status is a value, since it
  is the result of \<open>normalizeStatus\<close>.
\<close>

datatype 'a task =
  Task (task_id: string) (task_status: js_value) (task_parentId: "string option")
       (task_fields: 'a) (task_subtasks: "'a task list")

record counts =
  total :: nat
  completed :: nat
  inProgress :: nat
  todo :: nat
  blocked :: nat

record progress = counts +
  mainTasks :: counts
  allItems :: counts

text \<open>
  The body of both counting loops: the counter of the total and the \<open>switch\<close> on the
  normalised status. The counters are the local variables of \<open>getTaskProgress\<close>, passed
  along as a record.
\<close>

definition count_status :: "js_value \<Rightarrow> counts \<Rightarrow> counts" where
  "count_status s c =
     (let c1 = c\<lparr>total := total c + 1\<rparr>;
          n = normalizeStatus_value s
      in if n = Str ''completed'' then c1\<lparr>completed := completed c1 + 1\<rparr>
         else if n = Str ''in-progress'' then c1\<lparr>inProgress := inProgress c1 + 1\<rparr>
         else if n = Str ''todo'' then c1\<lparr>todo := todo c1 + 1\<rparr>
         else if n = Str ''blocked'' then c1\<lparr>blocked := blocked c1 + 1\<rparr>
         else c1)"

fun countMainTasks :: "'a task list \<Rightarrow> counts \<Rightarrow> counts" where
  "countMainTasks [] c = c"
| "countMainTasks (t # ts) c = countMainTasks ts (count_status (task_status t) c)"

fun countAllItems :: "'a task list \<Rightarrow> counts \<Rightarrow> counts" where
  "countAllItems [] c = c"
| "countAllItems (Task i s p f subs # ts) c =
     countAllItems ts (countAllItems subs (count_status s c))"

definition zero_counts :: counts where
  "zero_counts = \<lparr>total = 0, completed = 0, inProgress = 0, todo = 0, blocked = 0\<rparr>"

definition getTaskProgress :: "'a task list \<Rightarrow> progress" where
  "getTaskProgress ts =
     (let main = countMainTasks ts zero_counts;
          alli = countAllItems ts zero_counts
      in \<lparr>total = total alli, completed = completed alli, inProgress = inProgress alli,
          todo = todo alli, blocked = blocked alli,
          mainTasks = main, allItems = alli\<rparr>)"

text \<open>Every task of a forest: each task followed by all that is nested in it, at any depth.\<close>

fun all_tasks :: "'a task list \<Rightarrow> 'a task list" where
  "all_tasks [] = []"
| "all_tasks (Task i s p f subs # ts) = Task i s p f subs # all_tasks subs @ all_tasks ts"

definition with_status :: "string \<Rightarrow> 'a task list \<Rightarrow> nat" where
  "with_status x ts = length (filter (\<lambda>t. normalizeStatus_value (task_status t) = Str x) ts)"

section \<open>Hierarchy builder (processTaskHierarchy)\<close>

text \<open>
  \<open>lastIndexOf\<close> gives \<open>-1\<close> when there is no dot and \<open>substring(0, e)\<close> takes a negative
  end as \<open>0\<close>.
\<close>

definition hasExistingSubtasks :: "'a task list \<Rightarrow> bool" where
  "hasExistingSubtasks ts = list_ex (\<lambda>t. task_subtasks t \<noteq> []) ts"

definition includes_dot :: "string \<Rightarrow> bool" where
  "includes_dot taskId = (CHR ''.'' \<in> set taskId)"

definition hasDotNotationTasks :: "'a task list \<Rightarrow> bool" where
  "hasDotNotationTasks ts = list_ex (\<lambda>t. includes_dot (task_id t)) ts"

definition lastIndexOf_dot :: "string \<Rightarrow> int" where
  "lastIndexOf_dot s =
     (if includes_dot s
      then int (length s) - 1 - int (length (takeWhile (\<lambda>c. c \<noteq> CHR ''.'') (rev s)))
      else - 1)"

definition substring0 :: "string \<Rightarrow> int \<Rightarrow> string" where
  "substring0 s e = take (nat e) s"

definition getParentId :: "string \<Rightarrow> string" where
  "getParentId taskId = substring0 taskId (lastIndexOf_dot taskId)"

definition getNestingLevel :: "string \<Rightarrow> nat" where
  "getNestingLevel taskId = length (filter (\<lambda>c. c = CHR ''.'') taskId)"

text \<open>
  The second pass mutates the objects of \<open>taskMap\<close> through references: an object pushed
  into its parent's \<open>subtasks\<close> array is the same object that later receives its own
  children. The map is therefore a store: the key of an entry is the reference to its
  object, and the \<open>subtasks\<close> array of an object holds references. The store is a list in
  insertion order, as a \<open>Map\<close> is; \<open>set\<close> on an existing key replaces the value in place.
  When the first pass runs, the guard has established that every \<open>subtasks\<close> array is
  empty.
\<close>

record 'a obj =
  obj_id :: string
  obj_status :: js_value
  obj_parentId :: "string option"
  obj_fields :: 'a
  obj_subtasks :: "string list"

type_synonym 'a taskMap = "(string \<times> 'a obj) list"

fun map_set :: "'a taskMap \<Rightarrow> string \<Rightarrow> 'a obj \<Rightarrow> 'a taskMap" where
  "map_set [] k v = [(k, v)]"
| "map_set (p # ps) k v = (if fst p = k then (k, v) # ps else p # map_set ps k v)"

definition copy_task :: "'a task \<Rightarrow> 'a obj" where
  "copy_task t =
     \<lparr>obj_id = task_id t, obj_status = task_status t, obj_parentId = task_parentId t,
      obj_fields = task_fields t, obj_subtasks = []\<rparr>"

definition first_pass :: "'a task list \<Rightarrow> 'a taskMap" where
  "first_pass ts = foldl (\<lambda>m t. map_set m (task_id t) (copy_task t)) [] ts"

text \<open>
  The comparator of the sort: depth first, then \<open>localeCompare\<close> with the option
  \<open>numeric\<close>, a function of the runtime's internationalisation library, which is a
  parameter here. \<open>Array.prototype.sort\<close> is stable; it is an insertion sort here.
\<close>

definition compare_ids :: "(string \<Rightarrow> string \<Rightarrow> int) \<Rightarrow> string \<Rightarrow> string \<Rightarrow> int" where
  "compare_ids localeCompare a b =
     (let depthA = getNestingLevel a; depthB = getNestingLevel b
      in if depthA \<noteq> depthB then int depthA - int depthB else localeCompare a b)"

fun insert_sorted :: "('k \<Rightarrow> 'k \<Rightarrow> int) \<Rightarrow> 'k \<Rightarrow> 'k list \<Rightarrow> 'k list" where
  "insert_sorted cmp x [] = [x]"
| "insert_sorted cmp x (y # ys) =
     (if cmp x y \<le> 0 then x # y # ys else y # insert_sorted cmp x ys)"

definition sort_with :: "('k \<Rightarrow> 'k \<Rightarrow> int) \<Rightarrow> 'k list \<Rightarrow> 'k list" where
  "sort_with cmp xs = foldr (insert_sorted cmp) xs []"

text \<open>
  \<open>map_modify m k f\<close> is the store after a mutation \<open>f\<close> of the object that the reference \<open>k\<close>
  names. \<open>attach\<close> is the body of the second \<open>forEach\<close>, on the store and the list
  \<open>rootTasks\<close> of references: \<^verbatim>\<open>parent.subtasks.push(task); task.parentId = parentId\<close>, or
  \<^verbatim>\<open>rootTasks.push(task)\<close>.
\<close>

fun map_modify :: "'a taskMap \<Rightarrow> string \<Rightarrow> ('a obj \<Rightarrow> 'a obj) \<Rightarrow> 'a taskMap" where
  "map_modify [] k f = []"
| "map_modify (p # ps) k f = (if fst p = k then (k, f (snd p)) # ps else p # map_modify ps k f)"

definition attach :: "string \<Rightarrow> 'a taskMap \<times> string list \<Rightarrow> 'a taskMap \<times> string list" where
  "attach taskId s =
     (let m = fst s; rootTasks = snd s in
      case map_of m taskId of
        None \<Rightarrow> (m, rootTasks)
      | Some task \<Rightarrow>
          if includes_dot taskId then
            (let parentId = getParentId taskId in
             case map_of m parentId of
               Some parent \<Rightarrow>
                 (let m1 = map_modify m parentId
                             (\<lambda>ob. ob\<lparr>obj_subtasks := obj_subtasks ob @ [taskId]\<rparr>);
                      m2 = map_modify m1 taskId (\<lambda>ob. ob\<lparr>obj_parentId := Some parentId\<rparr>)
                  in (m2, rootTasks))
             | None \<Rightarrow> (m, rootTasks @ [taskId]))
          else (m, rootTasks @ [taskId]))"

definition second_pass :: "string list \<Rightarrow> 'a taskMap \<Rightarrow> 'a taskMap \<times> string list" where
  "second_pass sortedTaskIds m = fold attach sortedTaskIds (m, [])"

text \<open>
  The value of a reference: the task with its subtasks, read through the store. The
  recursion follows references, so it is bounded by a counter; \<open>None\<close> means the counter
  ran out. References go from a key to strictly longer keys, and \<open>depth_bound\<close> exceeds
  the length of every key.
\<close>

fun resolve :: "nat \<Rightarrow> 'a taskMap \<Rightarrow> string \<Rightarrow> 'a task option" where
  "resolve 0 m k = None"
| "resolve (Suc n) m k =
     (case map_of m k of
        None \<Rightarrow> None
      | Some ob \<Rightarrow>
          (case those (map (resolve n m) (obj_subtasks ob)) of
             None \<Rightarrow> None
           | Some subs \<Rightarrow>
               Some (Task (obj_id ob) (obj_status ob) (obj_parentId ob) (obj_fields ob) subs)))"

definition depth_bound :: "'a taskMap \<Rightarrow> nat" where
  "depth_bound m = Suc (foldr max (map (length \<circ> fst) m) 0)"

definition processTaskHierarchy ::
  "(string \<Rightarrow> string \<Rightarrow> int) \<Rightarrow> 'a task list \<Rightarrow> 'a task list option" where
  "processTaskHierarchy localeCompare ts =
     (if hasExistingSubtasks ts then Some ts
      else if \<not> hasDotNotationTasks ts then Some ts
      else
        (let taskMap = first_pass ts;
             sortedTaskIds = sort_with (compare_ids localeCompare) (map fst taskMap);
             (m, rootTasks) = second_pass sortedTaskIds taskMap
         in those (map (resolve (depth_bound m) m) rootTasks)))"

text \<open>
  What the second pass has done to the object of key \<open>k\<close> once the ids \<open>ids\<close> have been
  processed, \<open>K\<close> being the keys of the store: the dotted ids whose parent id is \<open>k\<close> have
  been pushed, in order, and \<open>parentId\<close> has been set if \<open>k\<close> itself was attached.
\<close>

definition attached :: "string list \<Rightarrow> string set \<Rightarrow> string \<Rightarrow> 'a obj \<Rightarrow> 'a obj" where
  "attached ids K k ob =
     ob\<lparr>obj_subtasks := obj_subtasks ob @ filter (\<lambda>c. includes_dot c \<and> getParentId c = k) ids,
        obj_parentId := (if k \<in> set ids \<and> includes_dot k \<and> getParentId k \<in> K
                         then Some (getParentId k) else obj_parentId ob)\<rparr>"

section \<open>Example documents\<close>

text \<open>
  A comparator for the examples: code point order, which is also the order that
  \<open>localeCompare\<close> with \<open>numeric\<close> gives to the ids of the examples.
\<close>

fun compare_codepoints :: "string \<Rightarrow> string \<Rightarrow> int" where
  "compare_codepoints [] [] = 0"
| "compare_codepoints [] (y # ys) = - 1"
| "compare_codepoints (x # xs) [] = 1"
| "compare_codepoints (x # xs) (y # ys) =
     (if x = y then compare_codepoints xs ys
      else if (of_char x :: nat) < of_char y then - 1 else 1)"

definition flat_tasks :: "string task list" where
  "flat_tasks =
     [Task ''1.2.1'' (Str ''todo'') None ''Deep'' [],
      Task ''1'' (Str ''in-progress'') None ''Parent'' [],
      Task ''1.2'' (Str ''todo'') None ''Second'' [],
      Task ''1.1'' (Str ''completed'') None ''First'' [],
      Task ''2.5'' (Str ''todo'') None ''Orphan'' []]"

definition duplicate_tasks :: "string task list" where
  "duplicate_tasks =
     [Task ''2.5'' (Str ''todo'') None ''first'' [],
      Task ''2.5'' (Str ''todo'') None ''second'' []]"

definition doc_tagged :: json where
  "doc_tagged =
     JObj [(''master'', JObj [(''tasks'', JArr
       [JObj [(''id'', JStr ''1''), (''title'', JStr ''Parent''), (''status'', JStr ''in-progress''),
              (''updated'', JStr ''2025-01-01T00:00:00.000Z''),
              (''subtasks'', JArr
                 [JObj [(''id'', JStr ''1.1''), (''title'', JStr ''First''),
                        (''status'', JStr ''pending''),
                        (''updated'', JStr ''2025-01-01T00:00:00.000Z'')],
                  JObj [(''id'', JStr ''1.2''), (''title'', JStr ''Second''),
                        (''status'', JStr ''pending''),
                        (''updated'', JStr ''2025-01-01T00:00:00.000Z'')]])]])])]"

definition doc_tagged_after :: json where
  "doc_tagged_after =
     JObj [(''master'', JObj [(''tasks'', JArr
       [JObj [(''id'', JStr ''1''), (''title'', JStr ''Parent''), (''status'', JStr ''in-progress''),
              (''updated'', JStr ''2025-01-01T00:00:00.000Z''),
              (''subtasks'', JArr
                 [JObj [(''id'', JStr ''1.1''), (''title'', JStr ''First''),
                        (''status'', JStr ''pending''),
                        (''updated'', JStr ''2025-01-01T00:00:00.000Z'')],
                  JObj [(''id'', JStr ''1.2''), (''title'', JStr ''Second''),
                        (''status'', JStr ''done''),
                        (''updated'', JStr ''2025-06-01T12:00:00.000Z'')]])]])])]"

definition doc_two_shapes :: json where
  "doc_two_shapes =
     JObj [(''tasks'', JArr [JObj [(''id'', JNum ''7'')]]),
           (''master'', JObj [(''tasks'', JArr [JObj [(''id'', JNum ''1'')]])])]"

definition doc_nested :: json where
  "doc_nested =
     JObj [(''tags'', JObj [(''master'', JObj [(''tasks'', JArr [JObj [(''id'', JNum ''2'')]])])]),
           (''tasks'', JArr [])]"

definition doc_legacy :: json where
  "doc_legacy = JObj [(''tasks'', JArr [JObj [(''id'', JNum ''3'')]])]"

definition doc_no_master :: json where
  "doc_no_master =
     JObj [(''feature'', JObj [(''tasks'', JArr [JObj [(''id'', JNum ''1'')]])]),
           (''bugfix'', JObj [(''tasks'', JArr [JObj [(''id'', JNum ''2'')]])])]"

section \<open>Theorems\<close>

subsection \<open>Status normaliser\<close>

lemma denormalizeStatus_table:
  "s \<in> set TaskStatus_values \<Longrightarrow>
     denormalizeStatus s =
       Str (if s = ''completed'' then ''done'' else if s = ''todo'' then ''pending'' else s)"
  by (auto simp: TaskStatus_values_def denormalizeStatus_def denormalize_statusMap_def)

lemma normalizeStatus_table:
  "map_of normalize_statusMap x = Some c \<Longrightarrow> normalizeStatus x = Str c"
  by (simp add: normalizeStatus_def)

lemma normalize_statusMap_range:
  "map_of normalize_statusMap x = Some c \<Longrightarrow> c \<in> set TaskStatus_values"
  by (auto simp: normalize_statusMap_def TaskStatus_values_def split: if_splits)

text \<open>
  The first half of claim C6 holds on the code: for a raw status \<open>x\<close> of the mapping table,
  \<open>w = denormalize(normalize(x))\<close> is the write token of the status of \<open>x\<close>, and normalising
  and denormalising \<open>w\<close> again gives \<open>w\<close>.
\<close>

lemma denormalize_normalize_fixed_point:
  assumes "map_of normalize_statusMap x = Some c"
  shows "denormalizeStatus_value (normalizeStatus x) = denormalizeStatus c"
    and "\<exists>w. denormalizeStatus c = Str w \<and>
             denormalizeStatus_value (normalizeStatus w) = Str w"
  using assms
  by (auto simp: normalizeStatus_def denormalizeStatus_def normalize_statusMap_def
      denormalize_statusMap_def split: if_splits)

lemma normalizeStatus_unknown:
  "map_of normalize_statusMap x = None \<Longrightarrow> x \<notin> set object_prototype_members \<Longrightarrow>
     normalizeStatus x = Str ''todo''"
  by (simp add: normalizeStatus_def)

text \<open>
  Claim C4, as stated: for every canonical status \<open>s\<close>, \<open>denormalize(s)\<close> is \<open>s\<close> itself,
  with the single exception \<open>completed \<mapsto> done\<close>. The code's table has a second entry
  that changes its key: \<open>todo\<close> is written back as \<open>pending\<close>.
\<close>

theorem C4_denormalize_todo_counterexample:
  "''todo'' \<in> set TaskStatus_values \<and> ''todo'' \<noteq> ''completed'' \<and>
   denormalizeStatus ''todo'' = Str ''pending'' \<and>
   denormalizeStatus ''todo'' \<noteq> Str ''todo''"
  by (simp add: TaskStatus_values_def denormalizeStatus_def denormalize_statusMap_def)

text \<open>
  Claim C4, amended: for every canonical status \<open>s\<close>, \<open>denormalize(s)\<close> is the string \<open>s\<close>
  itself, with exactly two exceptions: \<open>completed\<close> gives \<open>done\<close> and \<open>todo\<close> gives
  \<open>pending\<close>.
\<close>

theorem C4_denormalize_canonical:
  "s \<in> set TaskStatus_values \<Longrightarrow>
     denormalizeStatus s =
       Str (if s = ''completed'' then ''done'' else if s = ''todo'' then ''pending'' else s)"
  by (auto simp: TaskStatus_values_def denormalizeStatus_def denormalize_statusMap_def)

theorem C4_denormalize_canonical_witness:
  "''review'' \<in> set TaskStatus_values \<and> denormalizeStatus ''review'' = Str ''review'' \<and>
   ''completed'' \<in> set TaskStatus_values \<and> denormalizeStatus ''completed'' = Str ''done''"
  using C4_denormalize_canonical [of "''review''"] C4_denormalize_canonical [of "''completed''"]
  by (simp add: TaskStatus_values_def)

text \<open>
  Claim C6: for every raw status of the mapping table \<open>denormalize(normalize(x))\<close> is a
  fixed point equal to the write token of its status (this half is
  \<open>denormalize_normalize_fixed_point\<close>), and for every string that is not in the table
  \<open>normalize\<close> returns \<open>todo\<close>. The second half fails on the code at the string
  \<open>constructor\<close>: it is not a key of the table, yet the lookup finds the member that the
  table object inherits, and \<open>normalize\<close> returns that member instead of \<open>todo\<close>.
\<close>

theorem C6_normalize_constructor_not_todo:
  "map_of normalize_statusMap ''constructor'' = None \<and>
   normalizeStatus ''constructor'' = Inherited ''constructor'' \<and>
   normalizeStatus ''constructor'' \<noteq> Str ''todo''"
  by (simp add: normalizeStatus_def normalize_statusMap_def object_prototype_members_def)

subsection \<open>Version compatibility gate\<close>

text \<open>
  A version string that consists of three runs of digits separated by dots, followed by
  anything that does not continue the last run, is read as those three runs.
\<close>

lemma isDigit_dot: "\<not> isDigit CHR ''.''"
  by (simp add: isDigit_def)

lemma takeWhile_digits:
  "\<forall>x \<in> set a. isDigit x \<Longrightarrow> takeWhile isDigit (a @ CHR ''.'' # s) = a"
  by (induction a) (simp_all add: isDigit_dot)

lemma dropWhile_digits:
  "\<forall>x \<in> set a. isDigit x \<Longrightarrow> dropWhile isDigit (a @ CHR ''.'' # s) = CHR ''.'' # s"
  by (induction a) (simp_all add: isDigit_dot)

lemma takeWhile_last_digits:
  "\<forall>x \<in> set c. isDigit x \<Longrightarrow> rest = [] \<or> \<not> isDigit (hd rest) \<Longrightarrow>
     takeWhile isDigit (c @ rest) = c"
proof (induction c)
  case Nil
  then show ?case by (cases rest) auto
next
  case (Cons x c)
  then show ?case by simp
qed

lemma match_here_semver:
  assumes "a \<noteq> []" and "\<forall>x \<in> set a. isDigit x"
    and "b \<noteq> []" and "\<forall>x \<in> set b. isDigit x"
    and "c \<noteq> []" and "\<forall>x \<in> set c. isDigit x"
    and "rest = [] \<or> \<not> isDigit (hd rest)"
  shows "match_here (a @ CHR ''.'' # b @ CHR ''.'' # c @ rest) = Some (a, b, c)"
proof -
  have 1: "takeWhile isDigit (a @ CHR ''.'' # b @ CHR ''.'' # c @ rest) = a"
    using assms(2) by (rule takeWhile_digits)
  have 2: "dropWhile isDigit (a @ CHR ''.'' # b @ CHR ''.'' # c @ rest)
             = CHR ''.'' # b @ CHR ''.'' # c @ rest"
    using assms(2) by (rule dropWhile_digits)
  have 3: "takeWhile isDigit (b @ CHR ''.'' # c @ rest) = b"
    using assms(4) by (rule takeWhile_digits)
  have 4: "dropWhile isDigit (b @ CHR ''.'' # c @ rest) = CHR ''.'' # c @ rest"
    using assms(4) by (rule dropWhile_digits)
  have 5: "takeWhile isDigit (c @ rest) = c"
    using assms(6,7) by (rule takeWhile_last_digits)
  show ?thesis
    unfolding match_here_def Let_def 1 2 using assms(1,3,5) by (simp add: 3 4 5)
qed

lemma parseCLIVersion_semver:
  assumes "a \<noteq> []" and "\<forall>x \<in> set a. isDigit x"
    and "b \<noteq> []" and "\<forall>x \<in> set b. isDigit x"
    and "c \<noteq> []" and "\<forall>x \<in> set c. isDigit x"
    and "rest = [] \<or> \<not> isDigit (hd rest)"
  shows "parseCLIVersion (a @ CHR ''.'' # b @ CHR ''.'' # c @ rest) =
           (parseInt a, parseInt b, parseInt c)"
proof -
  obtain x xs where s: "a @ CHR ''.'' # b @ CHR ''.'' # c @ rest = x # xs"
    using assms(1) by (cases a) auto
  have "match_here (x # xs) = Some (a, b, c)"
    using match_here_semver [OF assms] unfolding s .
  then have "match_first (x # xs) = Some (a, b, c)" by simp
  then show ?thesis unfolding s by (simp add: parseCLIVersion_def)
qed

lemma parseInt_small: "digits_value ds < 2 ^ 53 \<Longrightarrow> parseInt ds = Finite (digits_value ds)"
  by (simp add: parseInt_def to_double_def)

text \<open>
  The parts of claim C5 that hold on the code: with both versions obtained, the result is
  compatible exactly when the major segments are equal Numbers and the minor segments do
  not differ by more than 20; with a version that is \<open>null\<close> or empty, the result is
  compatible and carries a warning.
\<close>

lemma checkVersionCompatibility_both:
  "c \<noteq> [] \<Longrightarrow> m \<noteq> [] \<Longrightarrow>
     compatible (checkVersionCompatibility (Some c) (Some m)) =
       (major c = major m \<and> \<not> abs_difference_exceeds (minor c) (minor m) 20)"
  by (auto simp: checkVersionCompatibility_def falsy_version_def Let_def)

lemma checkVersionCompatibility_not_obtained:
  "falsy_version cv \<or> falsy_version mv \<Longrightarrow>
     compatible (checkVersionCompatibility cv mv) \<and>
     warning (checkVersionCompatibility cv mv) \<noteq> None"
  by (auto simp: checkVersionCompatibility_def falsy_version_def Let_def)

lemma version_segments_examples:
  "parseCLIVersion ''0.17.0'' = (Finite 0, Finite 17, Finite 0) \<and>
   parseCLIVersion ''0.22.0'' = (Finite 0, Finite 22, Finite 0) \<and>
   parseCLIVersion ''1.4.0'' = (Finite 1, Finite 4, Finite 0) \<and>
   parseCLIVersion ''2.4.0'' = (Finite 2, Finite 4, Finite 0) \<and>
   parseCLIVersion ''unknown'' = (Finite 0, Finite 0, Finite 0)"
  by (simp add: parseCLIVersion_def match_here_def isDigit_def Let_def parseInt_def
      to_double_def digits_value_def digitVal_def)

lemma checkVersionCompatibility_examples:
  "compatible (checkVersionCompatibility (Some ''0.17.0'') (Some ''0.22.0'')) \<and>
   \<not> compatible (checkVersionCompatibility (Some ''1.4.0'') (Some ''2.4.0''))"
  by (simp add: checkVersionCompatibility_both major_def minor_def version_segments_examples)

text \<open>
  Segments from \<open>2 ^ 53\<close> on are rounded: \<open>9007199254740993\<close> and \<open>9007199254740992\<close> are
  the same Number.
\<close>

lemma bit_length_example:
  "bit_length 9007199254740993 = 54 \<and> bit_length 9007199254740992 = 54"
  by simp

lemma to_double_rounds:
  "to_double 9007199254740993 = Finite 9007199254740992 \<and>
   to_double 9007199254740992 = Finite 9007199254740992"
  using bit_length_example by (simp add: to_double_def Let_def del: bit_length.simps)

text \<open>
  Claim C5: both versions known and majors different, or minors more than 20 apart, gives
  \<open>compatible=false\<close>, otherwise \<open>compatible=true\<close>; either version unknown gives
  \<open>compatible=true\<close> with an advisory warning. The last part fails on the code when the
  protocol server is available but reports no version: \<open>getMCPVersion\<close> then returns the
  string \<open>unknown\<close>, which is not \<open>null\<close>, so \<open>checkVersionCompatibility\<close> goes on to parse
  it, reads it as \<open>0.0.0\<close>, and against the CLI version \<open>1.4.0\<close> reports a major version
  mismatch with \<open>compatible=false\<close>.
\<close>

theorem C5_unknown_mcp_version_incompatible:
  "getMCPVersion (GetVersionReturns None) = Some ''unknown'' \<and>
   parseCLIVersion ''unknown'' = (Finite 0, Finite 0, Finite 0) \<and>
   parseCLIVersion ''1.4.0'' = (Finite 1, Finite 4, Finite 0) \<and>
   checkVersionCompatibility (Some ''1.4.0'') (getMCPVersion (GetVersionReturns None)) =
     \<lparr>compatible = False, cliVersion = Some ''1.4.0'', mcpVersion = Some ''unknown'',
      warning = Some (''Major version mismatch: CLI v1.4.0 vs MCP vunknown'' @
                      ''. This may cause data inconsistencies.'')\<rparr>"
  by (simp add: getMCPVersion_def checkVersionCompatibility_def falsy_version_def Let_def
      major_def version_segments_examples)

subsection \<open>Format extractor\<close>

lemma get_Some_truthy: "get d k = Some v \<Longrightarrow> truthy d"
  by (cases d) auto

lemma is_object_iff: "is_object t = (truthy t \<and> typeof_object t)"
  by (cases t) auto

lemma is_direct_tag_shape: "is_direct_tag d = shape_direct_tag d"
  by (auto simp: is_direct_tag_def shape_direct_tag_def holds_tasks_array_def tasks_of_def
      dest: get_Some_truthy split: option.splits json.splits)

lemma nested_tags_shape: "nested_tags d = (if shape_nested_tag d then get d ''tags'' else None)"
  by (auto simp: nested_tags_def shape_nested_tag_def is_object_iff split: option.splits)

lemma legacy_tasks_shape: "(legacy_tasks d \<noteq> None) = shape_legacy d"
  by (auto simp: legacy_tasks_def shape_legacy_def holds_tasks_array_def
      split: option.splits json.splits)

lemma shape_flat_iff: "shape_flat d = (\<exists>ts. d = JArr ts)"
  by (cases d) (auto simp: shape_flat_def)

text \<open>
  The extractor on every document. A document that has none of the four shapes makes it
  fail instead of yielding a task list: with the error for the unknown format, or, for
  the document \<open>null\<close>, with the \<open>TypeError\<close> of the first property read. The shapes are
  tested in the order flat array, direct-tag, nested-tag, legacy, and the first that
  matches decides the result, whatever later shapes the document also has.
\<close>

lemma extract_first_match:
  "(\<not> shape_flat d \<and> \<not> shape_direct_tag d \<and> \<not> shape_nested_tag d \<and> \<not> shape_legacy d \<longrightarrow>
      extractTasksFromContainer d st = Inl (if d = JNull then TypeError else UnknownFormat))
   \<and> (shape_flat d \<longrightarrow>
      (\<exists>ts. d = JArr ts \<and>
         extractTasksFromContainer d st =
           Inr \<lparr>tasks = ts, isTaggedFormat = False, currentTag = ''master'',
                originalContainer = d\<rparr>))
   \<and> (\<not> shape_flat d \<and> shape_direct_tag d \<longrightarrow>
      extractTasksFromContainer d st = extract_tagged d d st)
   \<and> (\<not> shape_flat d \<and> \<not> shape_direct_tag d \<and> shape_nested_tag d \<longrightarrow>
      (\<exists>t. get d ''tags'' = Some t \<and>
         extractTasksFromContainer d st = extract_tagged d t st))
   \<and> (\<not> shape_flat d \<and> \<not> shape_direct_tag d \<and> \<not> shape_nested_tag d \<and> shape_legacy d \<longrightarrow>
      (\<exists>ts. get d ''tasks'' = Some (JArr ts) \<and>
         extractTasksFromContainer d st =
           Inr \<lparr>tasks = ts, isTaggedFormat = False, currentTag = ''master'',
                originalContainer = d\<rparr>))"
proof (cases d)
  case JNull
  then show ?thesis
    by (simp add: extractTasksFromContainer_def shape_flat_def shape_direct_tag_def
        shape_nested_tag_def shape_legacy_def holds_tasks_array_def)
next
  case (JArr ts)
  then show ?thesis
    by (simp add: extractTasksFromContainer_def shape_flat_def)
next
  case (JBool b)
  then show ?thesis
    by (simp add: extractTasksFromContainer_def shape_flat_def shape_direct_tag_def
        shape_nested_tag_def shape_legacy_def holds_tasks_array_def is_direct_tag_def
        nested_tags_def legacy_tasks_def tasks_of_def)
next
  case (JNum n)
  then show ?thesis
    by (simp add: extractTasksFromContainer_def shape_flat_def shape_direct_tag_def
        shape_nested_tag_def shape_legacy_def holds_tasks_array_def is_direct_tag_def
        nested_tags_def legacy_tasks_def tasks_of_def)
next
  case (JStr x)
  then show ?thesis
    by (simp add: extractTasksFromContainer_def shape_flat_def shape_direct_tag_def
        shape_nested_tag_def shape_legacy_def holds_tasks_array_def is_direct_tag_def
        nested_tags_def legacy_tasks_def tasks_of_def)
next
  case (JObj kvs)
  let ?d = "JObj kvs"
  have flat: "\<not> shape_flat ?d" by (simp add: shape_flat_def)
  have ex: "extractTasksFromContainer ?d st =
      (if shape_direct_tag ?d then extract_tagged ?d ?d st
       else if shape_nested_tag ?d then extract_tagged ?d (the (get ?d ''tags'')) st
       else (case legacy_tasks ?d of
               Some ts \<Rightarrow> Inr \<lparr>tasks = ts, isTaggedFormat = False, currentTag = ''master'',
                           originalContainer = ?d\<rparr>
             | None \<Rightarrow> Inl UnknownFormat))"
    by (auto simp: extractTasksFromContainer_def is_direct_tag_shape nested_tags_shape
        shape_nested_tag_def split: option.splits)
  have nested: "shape_nested_tag ?d \<Longrightarrow> \<exists>t. get ?d ''tags'' = Some t"
    by (auto simp: shape_nested_tag_def split: option.splits)
  have legacy: "shape_legacy ?d \<Longrightarrow>
      \<exists>ts. get ?d ''tasks'' = Some (JArr ts) \<and> legacy_tasks ?d = Some ts"
    by (auto simp: shape_legacy_def holds_tasks_array_def legacy_tasks_def
        split: option.splits json.splits)
  have nolegacy: "\<not> shape_legacy ?d \<Longrightarrow> legacy_tasks ?d = None"
    using legacy_tasks_shape [of ?d] by simp
  show ?thesis
    unfolding JObj ex using flat nested legacy nolegacy by auto
qed

lemma extract_first_match_examples:
  "(\<not> shape_flat (JObj [(''version'', JNum ''2'')]) \<and>
    \<not> shape_direct_tag (JObj [(''version'', JNum ''2'')]) \<and>
    \<not> shape_nested_tag (JObj [(''version'', JNum ''2'')]) \<and>
    \<not> shape_legacy (JObj [(''version'', JNum ''2'')]) \<and>
    extractTasksFromContainer (JObj [(''version'', JNum ''2'')]) None = Inl UnknownFormat)
   \<and> (shape_flat (JArr [JNum ''1'']) \<and> isl (extractTasksFromContainer (JArr [JNum ''1'']) None) = False)
   \<and> (\<not> shape_flat doc_two_shapes \<and> shape_direct_tag doc_two_shapes \<and> shape_legacy doc_two_shapes \<and>
      extractTasksFromContainer doc_two_shapes None =
        Inr \<lparr>tasks = [JObj [(''id'', JNum ''1'')]], isTaggedFormat = True, currentTag = ''master'',
             originalContainer = doc_two_shapes\<rparr>)
   \<and> (\<not> shape_flat doc_nested \<and> \<not> shape_direct_tag doc_nested \<and> shape_nested_tag doc_nested \<and>
      shape_legacy doc_nested \<and>
      extractTasksFromContainer doc_nested None =
        Inr \<lparr>tasks = [JObj [(''id'', JNum ''2'')]], isTaggedFormat = True, currentTag = ''master'',
             originalContainer = doc_nested\<rparr>)
   \<and> (\<not> shape_flat doc_legacy \<and> \<not> shape_direct_tag doc_legacy \<and> \<not> shape_nested_tag doc_legacy \<and>
      shape_legacy doc_legacy \<and>
      extractTasksFromContainer doc_legacy None =
        Inr \<lparr>tasks = [JObj [(''id'', JNum ''3'')]], isTaggedFormat = False, currentTag = ''master'',
             originalContainer = doc_legacy\<rparr>)"
  using extract_first_match [of "JObj [(''version'', JNum ''2'')]" None]
    extract_first_match [of "JArr [JNum ''1'']" None]
    extract_first_match [of doc_two_shapes None]
    extract_first_match [of doc_nested None]
    extract_first_match [of doc_legacy None]
  by (simp add: shape_flat_def shape_direct_tag_def shape_nested_tag_def shape_legacy_def
      holds_tasks_array_def doc_two_shapes_def doc_nested_def doc_legacy_def
      extract_tagged_def state_currentTag_def tasks_of_def Let_def)

text \<open>
  Claim C7: every parsed document that has none of the four shapes makes the extractor
  fail with the error for the unknown container shape, the shapes being tested in order
  with the first match winning. The order and the failure hold (\<open>extract_first_match\<close>),
  and every such document other than \<open>null\<close> gets the unknown-format error. The document
  \<open>null\<close> has none of the four shapes, but the test for the direct-tag shape reads
  \<open>tasksContainer.master\<close> before the final \<open>else\<close> is reached, and that read throws a
  \<open>TypeError\<close>: this is the error \<open>setTaskStatus\<close> rethrows.
\<close>

theorem C7_null_document_type_error:
  "\<not> shape_flat JNull \<and> \<not> shape_direct_tag JNull \<and> \<not> shape_nested_tag JNull \<and>
   \<not> shape_legacy JNull \<and>
   extractTasksFromContainer JNull None = Inl TypeError \<and>
   extractTasksFromContainer JNull None \<noteq> Inl UnknownFormat \<and>
   setTaskStatus McpUnavailable (Content JNull) None ''2025-06-01T12:00:00.000Z'' ''1''
       ''completed''
     = (Inl TypeError, Content JNull, [DirectFile])"
  by (simp add: shape_flat_def shape_direct_tag_def shape_nested_tag_def shape_legacy_def
      holds_tasks_array_def extractTasksFromContainer_def setTaskStatus_def
      setTaskStatus_file_def)

text \<open>
  Claim C10: an object document with no \<open>master\<close> key holding a \<open>tasks\<close> array, no \<open>tags\<close>
  object and no top-level \<open>tasks\<close> array is of unknown format, whatever other keys it has
  and whatever tag the persisted state names: \<open>extractTasksFromContainer\<close> throws the
  unknown-format error and the detection in \<open>getTasks\<close> reads no task.
\<close>

theorem C10_no_master_unknown_format:
  assumes "\<not> shape_direct_tag (JObj kvs)"
    and "\<not> shape_nested_tag (JObj kvs)"
    and "\<not> shape_legacy (JObj kvs)"
  shows "extractTasksFromContainer (JObj kvs) st = Inl UnknownFormat
       \<and> getTasks_rawTasks (JObj kvs) st = Inr []"
  using assms legacy_tasks_shape [of "JObj kvs"]
  by (simp add: extractTasksFromContainer_def getTasks_rawTasks_def is_direct_tag_shape
      nested_tags_shape)


theorem C10_no_master_unknown_format_witness:
  "\<not> shape_direct_tag doc_no_master \<and> \<not> shape_nested_tag doc_no_master \<and>
   \<not> shape_legacy doc_no_master \<and>
   tasks_of (get doc_no_master ''feature'') = Some [JObj [(''id'', JNum ''1'')]] \<and>
   extractTasksFromContainer doc_no_master (Some ''feature'') = Inl UnknownFormat \<and>
   getTasks_rawTasks doc_no_master (Some ''feature'') = Inr []"
proof -
  have h1: "\<not> shape_direct_tag (JObj [(''feature'', JObj [(''tasks'', JArr [JObj [(''id'', JNum ''1'')]])]),
           (''bugfix'', JObj [(''tasks'', JArr [JObj [(''id'', JNum ''2'')]])])])"
    by (simp add: shape_direct_tag_def)
  have h2: "\<not> shape_nested_tag (JObj [(''feature'', JObj [(''tasks'', JArr [JObj [(''id'', JNum ''1'')]])]),
           (''bugfix'', JObj [(''tasks'', JArr [JObj [(''id'', JNum ''2'')]])])])"
    by (simp add: shape_nested_tag_def)
  have h3: "\<not> shape_legacy (JObj [(''feature'', JObj [(''tasks'', JArr [JObj [(''id'', JNum ''1'')]])]),
           (''bugfix'', JObj [(''tasks'', JArr [JObj [(''id'', JNum ''2'')]])])])"
    by (simp add: shape_legacy_def holds_tasks_array_def)
  show ?thesis
    using C10_no_master_unknown_format [OF h1 h2 h3, of "Some ''feature''"] h1 h2 h3
    by (simp add: doc_no_master_def tasks_of_def)
qed

subsection \<open>setTaskStatus\<close>



lemma items_of_subtasks:
  "t \<in> set ts \<Longrightarrow> get t ''subtasks'' = Some (JArr subs) \<Longrightarrow> set (items_of subs) \<subseteq> set (items_of ts)"
  by (induction ts rule: items_of.induct) auto










text \<open>
  Why the not-found error needs well-formed entries: an entry without an \<open>id\<close> makes the
  search itself throw, before it can conclude that nothing matches. The operation still
  fails and the file is still untouched.
\<close>

lemma setTaskStatus_entry_without_id:
  "setTaskStatus McpUnavailable (Content (JObj [(''tasks'', JArr [JObj [(''title'', JStr ''A'')]])]))
       None ''2025-06-01T12:00:00.000Z'' ''7'' ''completed''
     = (Inl TypeError, Content (JObj [(''tasks'', JArr [JObj [(''title'', JStr ''A'')]])]),
        [DirectFile])"
  by (simp add: setTaskStatus_def setTaskStatus_file_def extractTasksFromContainer_def
      is_direct_tag_def nested_tags_def legacy_tasks_def tasks_of_def idString_def)

text \<open>
  Claim C1: \<open>setTaskStatus("1.2", "completed")\<close> on a tagged document in which \<open>1.2\<close> is a
  subtask of \<open>1\<close> beside \<open>1.1\<close> changes only that subtask's status, refreshes the
  \<open>updated\<close> timestamp of the subtask and of the parent \<open>1\<close>, and leaves \<open>1.1\<close> as it was.
  On the code the subtask gets the status \<open>done\<close> and the new timestamp and \<open>1.1\<close> is
  untouched, but the parent keeps its old \<open>updated\<close> timestamp: the document written is
  \<open>doc_tagged_after\<close>.
\<close>

theorem C1_setTaskStatus_parent_not_refreshed:
  "setTaskStatus McpUnavailable (Content doc_tagged) None ''2025-06-01T12:00:00.000Z'' ''1.2''
      ''completed''
     = (Inr (), Content doc_tagged_after, [DirectFile]) \<and>
   map (\<lambda>t. get t ''updated'') (stored_tasks (Content doc_tagged_after) None)
     = [Some (JStr ''2025-01-01T00:00:00.000Z'')]"
  by (simp add: setTaskStatus_def setTaskStatus_file_def write_back_def mutated_in_place_def
      writeTasksToContainer_def nested_tags_def set_tag_tasks_def set_tasks_def
      stored_tasks_def doc_tagged_def doc_tagged_after_def extractTasksFromContainer_def
      is_direct_tag_def tasks_of_def extract_tagged_def state_currentTag_def idString_def
      denormalizeStatus_def denormalize_statusMap_def Let_def)

subsection \<open>Channel order\<close>

text \<open>
  Claim C2, as stated: when the protocol attempt fails, the CLI channel is attempted
  exactly once before the direct file access. On the code a failed protocol call of
  \<open>setTaskStatus\<close> is followed by the file access at once; the CLI channel is not
  attempted.
\<close>

theorem C2_cli_not_attempted_counterexample:
  "snd (snd (setTaskStatus McpFails (Content doc_tagged) None ''2025-06-01T12:00:00.000Z''
      ''1.2'' ''completed'')) = [Protocol, DirectFile] \<and>
   count_list [Protocol, DirectFile] CLI \<noteq> 1"
  by (simp add: setTaskStatus_def setTaskStatus_file_def write_back_def
      split: sum.splits option.splits tasks_file.splits)

lemma setTaskStatus_file_channels:
  "snd (snd (setTaskStatus_file f st now taskId status tr)) = tr"
  by (simp add: setTaskStatus_file_def write_back_def
      split: sum.splits option.splits tasks_file.splits)

lemma getTasks_file_channels: "snd (getTasks_file f st tr) = tr @ [DirectFile]"
  by (simp add: getTasks_file_def split: sum.splits tasks_file.splits)

text \<open>
  Claim C2, amended: in \<open>getTasks\<close> and \<open>setTaskStatus\<close> the protocol channel is attempted
  at most once and never again within the operation; when that attempt fails (or its
  answer is rejected, or, in \<open>getTasks\<close>, the protocol channel is skipped as distrusted)
  the operation goes to direct file access at once; the CLI channel is not attempted by
  these operations.
\<close>

theorem C2_channel_order:
  "snd (snd (setTaskStatus mcp f st now taskId status)) =
     (case mcp of
        McpSucceeds \<Rightarrow> [Protocol]
      | McpFails \<Rightarrow> [Protocol, DirectFile]
      | McpUnavailable \<Rightarrow> [DirectFile])
   \<and> snd (getTasks versionCheck preferCLI rd f st) =
     (if shouldSkipMCP versionCheck preferCLI then [DirectFile]
      else (case rd of
              ReadUnavailable \<Rightarrow> [DirectFile]
            | ReadValid ts \<Rightarrow> [Protocol]
            | ReadFails \<Rightarrow> [Protocol, DirectFile]
            | ReadInvalid \<Rightarrow> [Protocol, DirectFile]))
   \<and> count_list (snd (snd (setTaskStatus mcp f st now taskId status))) CLI = 0
   \<and> count_list (snd (snd (setTaskStatus mcp f st now taskId status))) Protocol \<le> 1
   \<and> count_list (snd (getTasks versionCheck preferCLI rd f st)) CLI = 0
   \<and> count_list (snd (getTasks versionCheck preferCLI rd f st)) Protocol \<le> 1"
  by (cases mcp; cases rd)
    (simp_all add: setTaskStatus_def getTasks_def setTaskStatus_file_channels
      getTasks_file_channels)

theorem C2_channel_order_witness:
  "shouldSkipMCP (checkVersionCompatibility (Some ''1.4.0'') (Some ''2.4.0'')) True \<and>
   snd (getTasks (checkVersionCompatibility (Some ''1.4.0'') (Some ''2.4.0'')) True
          (ReadValid [JNum ''1'']) (Content doc_tagged) None) = [DirectFile] \<and>
   snd (snd (setTaskStatus McpFails (Content doc_tagged) None ''2025-06-01T12:00:00.000Z''
          ''1.2'' ''completed'')) = [Protocol, DirectFile]"
proof -
  have skip: "shouldSkipMCP (checkVersionCompatibility (Some ''1.4.0'') (Some ''2.4.0'')) True"
    by (simp add: shouldSkipMCP_def checkVersionCompatibility_def falsy_version_def Let_def
        major_def version_segments_examples)
  show ?thesis
    using skip
      C2_channel_order [of McpFails "Content doc_tagged" None "''2025-06-01T12:00:00.000Z''"
        "''1.2''" "''completed''" "checkVersionCompatibility (Some ''1.4.0'') (Some ''2.4.0'')"
        True "ReadValid [JNum ''1'']"]
    by simp
qed

subsection \<open>getTaskProgress\<close>

lemma count_status_fields:
  "total (count_status s c) = total c + 1"
  "completed (count_status s c) = completed c + (if normalizeStatus_value s = Str ''completed'' then 1 else 0)"
  "inProgress (count_status s c) = inProgress c + (if normalizeStatus_value s = Str ''in-progress'' then 1 else 0)"
  "todo (count_status s c) = todo c + (if normalizeStatus_value s = Str ''todo'' then 1 else 0)"
  "blocked (count_status s c) = blocked c + (if normalizeStatus_value s = Str ''blocked'' then 1 else 0)"
  by (simp_all add: count_status_def Let_def)

lemma countAllItems_counts:
  "total (countAllItems ts c) = total c + length (all_tasks ts)"
  "completed (countAllItems ts c) = completed c + with_status ''completed'' (all_tasks ts)"
  "inProgress (countAllItems ts c) = inProgress c + with_status ''in-progress'' (all_tasks ts)"
  "todo (countAllItems ts c) = todo c + with_status ''todo'' (all_tasks ts)"
  "blocked (countAllItems ts c) = blocked c + with_status ''blocked'' (all_tasks ts)"
  by (induction ts c rule: countAllItems.induct)
    (simp_all add: count_status_fields with_status_def)

text \<open>
  Claim C9: the legacy top-level fields of the result of \<open>getTaskProgress\<close> equal the
  fields of its \<open>allItems\<close>, and \<open>allItems\<close> counts every task together with everything
  nested in it at any depth.
\<close>

theorem C9_getTaskProgress_legacy_fields:
  "total (getTaskProgress ts) = total (allItems (getTaskProgress ts)) \<and>
   completed (getTaskProgress ts) = completed (allItems (getTaskProgress ts)) \<and>
   inProgress (getTaskProgress ts) = inProgress (allItems (getTaskProgress ts)) \<and>
   todo (getTaskProgress ts) = todo (allItems (getTaskProgress ts)) \<and>
   blocked (getTaskProgress ts) = blocked (allItems (getTaskProgress ts)) \<and>
   allItems (getTaskProgress ts) =
     \<lparr>total = length (all_tasks ts),
      completed = with_status ''completed'' (all_tasks ts),
      inProgress = with_status ''in-progress'' (all_tasks ts),
      todo = with_status ''todo'' (all_tasks ts),
      blocked = with_status ''blocked'' (all_tasks ts)\<rparr>"
  by (simp add: getTaskProgress_def Let_def countAllItems_counts zero_counts_def)

subsection \<open>Hierarchy builder\<close>

lemma map_of_map_set: "map_of (map_set m k v) = (map_of m)(k \<mapsto> v)"
  by (induction m) (auto simp: fun_eq_iff)

lemma keys_map_set: "fst ` set (map_set m k v) = insert k (fst ` set m)"
  by (induction m) auto

lemma map_of_map_modify:
  "map_of (map_modify m k f) = (map_of m)(k := map_option f (map_of m k))"
  by (induction m) (auto simp: fun_eq_iff)

lemma keys_map_modify: "map fst (map_modify m k f) = map fst m"
  by (induction m) auto

lemma map_of_foldl_set:
  "map_of (foldl (\<lambda>m t. map_set m (task_id t) (copy_task t)) m ts) k =
     (case map_of (map (\<lambda>t. (task_id t, copy_task t)) (rev ts)) k of
        Some v \<Rightarrow> Some v
      | None \<Rightarrow> map_of m k)"
  by (induction ts arbitrary: m) (auto simp: map_of_map_set map_of_append split: option.splits)

lemma keys_foldl_set:
  "fst ` set (foldl (\<lambda>m t. map_set m (task_id t) (copy_task t)) m ts) = fst ` set m \<union> task_id ` set ts"
  by (induction ts arbitrary: m) (auto simp: keys_map_set)

lemma first_pass_keys: "fst ` set (first_pass ts) = task_id ` set ts"
  by (simp add: first_pass_def keys_foldl_set)

lemma first_pass_lookup:
  assumes "distinct (map task_id ts)" and "t \<in> set ts"
  shows "map_of (first_pass ts) (task_id t) = Some (copy_task t)"
proof -
  have d: "distinct (map fst (map (\<lambda>t. (task_id t, copy_task t)) (rev ts)))"
    using assms(1) by (simp add: comp_def rev_map [symmetric])
  have "(task_id t, copy_task t) \<in> set (map (\<lambda>t. (task_id t, copy_task t)) (rev ts))"
    using assms(2) by auto
  then have "map_of (map (\<lambda>t. (task_id t, copy_task t)) (rev ts)) (task_id t) = Some (copy_task t)"
    using d by (rule_tac map_of_is_SomeI)
  then show ?thesis by (simp add: first_pass_def map_of_foldl_set)
qed

lemma set_insert_sorted: "set (insert_sorted cmp x ys) = insert x (set ys)"
  by (induction ys) auto

lemma sort_with_Nil: "sort_with cmp [] = []"
  by (simp add: sort_with_def)

lemma sort_with_Cons: "sort_with cmp (x # xs) = insert_sorted cmp x (sort_with cmp xs)"
  by (simp add: sort_with_def)

lemma set_sort_with: "set (sort_with cmp xs) = set xs"
  by (induction xs) (simp_all add: sort_with_Nil sort_with_Cons set_insert_sorted)

lemma distinct_insert_sorted: "distinct (insert_sorted cmp x ys) = (x \<notin> set ys \<and> distinct ys)"
  by (induction ys) (auto simp: set_insert_sorted)

lemma distinct_sort_with: "distinct xs \<Longrightarrow> distinct (sort_with cmp xs)"
  by (induction xs)
    (simp_all add: sort_with_Nil sort_with_Cons distinct_insert_sorted set_sort_with)

lemma distinct_keys_map_set: "distinct (map fst m) \<Longrightarrow> distinct (map fst (map_set m k v))"
  by (induction m) (auto simp: keys_map_set)

lemma distinct_keys_foldl_set:
  "distinct (map fst m) \<Longrightarrow>
     distinct (map fst (foldl (\<lambda>m t. map_set m (task_id t) (copy_task t)) m ts))"
  by (induction ts arbitrary: m) (auto simp: distinct_keys_map_set)

lemma first_pass_distinct: "distinct (map fst (first_pass ts))"
  by (simp add: first_pass_def distinct_keys_foldl_set)

lemma length_takeWhile_less:
  "x \<in> set xs \<Longrightarrow> \<not> P x \<Longrightarrow> length (takeWhile P xs) < length xs"
  by (induction xs) auto

lemma getParentId_shorter:
  assumes "includes_dot k"
  shows "length (getParentId k) < length k"
proof -
  have "CHR ''.'' \<in> set (rev k)" using assms by (simp add: includes_dot_def)
  then have "length (takeWhile (\<lambda>c. c \<noteq> CHR ''.'') (rev k)) < length (rev k)"
    by (rule length_takeWhile_less) simp
  then show ?thesis using assms
    by (simp add: getParentId_def substring0_def lastIndexOf_dot_def)
qed

lemma getParentId_neq: "includes_dot k \<Longrightarrow> getParentId k \<noteq> k"
  using getParentId_shorter [of k] by auto

lemma attach_step:
  assumes "x \<in> fst ` set m"
  shows "\<exists>m'. attach x (m, roots) =
            (m', roots @ (if \<not> includes_dot x \<or> getParentId x \<notin> fst ` set m then [x] else []))
          \<and> map fst m' = map fst m
          \<and> (\<forall>k. map_of m' k = map_option (attached [x] (fst ` set m) k) (map_of m k))"
proof -
  obtain task where task: "map_of m x = Some task"
    using assms by (metis domD dom_map_of_conv_image_fst)
  have id: "\<And>k. map_option (attached [x] (fst ` set m) k) (map_of m k) = map_of m k"
    if "\<not> includes_dot x \<or> getParentId x \<notin> fst ` set m"
    using that by (auto simp: attached_def map_option_case split: option.splits
        dest: map_of_SomeD intro: rev_image_eqI)
  show ?thesis
  proof (cases "includes_dot x")
    case False
    then show ?thesis using task id by (simp add: attach_def)
  next
    case True
    show ?thesis
    proof (cases "map_of m (getParentId x)")
      case None
      then have "getParentId x \<notin> fst ` set m"
        by (metis domIff dom_map_of_conv_image_fst)
      then show ?thesis using task True None id by (simp add: attach_def)
    next
      case (Some parent)
      then have pin: "getParentId x \<in> fst ` set m"
        by (metis domI dom_map_of_conv_image_fst)
      have ne: "getParentId x \<noteq> x" using True by (rule getParentId_neq)
      show ?thesis
        using task True Some pin ne
        by (auto simp: attach_def Let_def keys_map_modify map_of_map_modify attached_def
            map_option_case split: option.splits)
    qed
  qed
qed


lemma attached_Cons: "attached (x # ids) K k ob = attached ids K k (attached [x] K k ob)"
  by (simp add: attached_def)

lemma fold_attach:
  assumes "set ids \<subseteq> fst ` set m"
  shows "\<exists>m'. fold attach ids (m, roots) =
            (m', roots @ filter (\<lambda>k. \<not> includes_dot k \<or> getParentId k \<notin> fst ` set m) ids)
          \<and> map fst m' = map fst m
          \<and> (\<forall>k. map_of m' k = map_option (attached ids (fst ` set m) k) (map_of m k))"
  using assms
proof (induction ids arbitrary: m roots)
  case Nil
  have a: "\<forall>k. map_of m k = map_option (attached [] (fst ` set m) k) (map_of m k)"
  proof
    fix k show "map_of m k = map_option (attached [] (fst ` set m) k) (map_of m k)"
      by (cases "map_of m k") (simp_all add: attached_def)
  qed
  have b: "fold attach [] (m, roots) =
          (m, roots @ filter (\<lambda>k. \<not> includes_dot k \<or> getParentId k \<notin> fst ` set m) [])"
    by simp
  show ?case by (rule exI [of _ m]) (intro conjI b refl a)
next
  case (Cons x ids)
  let ?K = "fst ` set m"
  let ?r1 = "roots @ (if \<not> includes_dot x \<or> getParentId x \<notin> ?K then [x] else [])"
  have xin: "x \<in> ?K" using Cons.prems by simp
  from attach_step [OF xin, of roots] obtain m1 where
    h1: "attach x (m, roots) = (m1, ?r1) \<and> map fst m1 = map fst m \<and>
         (\<forall>k. map_of m1 k = map_option (attached [x] ?K k) (map_of m k))" ..
  have h1a: "attach x (m, roots) = (m1, ?r1)" using h1 by (rule conjunct1)
  have h1b: "map fst m1 = map fst m" using h1 by (elim conjE)
  have h1c: "\<And>k. map_of m1 k = map_option (attached [x] ?K k) (map_of m k)"
    using h1 by (elim conjE) (erule allE)
  have K1: "fst ` set m1 = ?K" using h1b by (metis set_map)
  have sub: "set ids \<subseteq> fst ` set m1" using Cons.prems K1 by simp
  from Cons.IH [OF sub, of ?r1] obtain m' where
    h2: "fold attach ids (m1, ?r1) =
           (m', ?r1 @ filter (\<lambda>k. \<not> includes_dot k \<or> getParentId k \<notin> fst ` set m1) ids) \<and>
         map fst m' = map fst m1 \<and>
         (\<forall>k. map_of m' k = map_option (attached ids (fst ` set m1) k) (map_of m1 k))" ..
  have h2a: "fold attach ids (m1, ?r1) =
           (m', ?r1 @ filter (\<lambda>k. \<not> includes_dot k \<or> getParentId k \<notin> fst ` set m1) ids)"
    using h2 by (rule conjunct1)
  have h2b: "map fst m' = map fst m1" using h2 by (elim conjE)
  have h2c: "\<And>k. map_of m' k = map_option (attached ids (fst ` set m1) k) (map_of m1 k)"
    using h2 by (elim conjE) (erule allE)
  have l: "\<forall>k. map_of m' k = map_option (attached (x # ids) ?K k) (map_of m k)"
  proof
    fix k
    show "map_of m' k = map_option (attached (x # ids) ?K k) (map_of m k)"
      unfolding h2c [of k] h1c [of k] K1
      by (cases "map_of m k") (simp_all add: attached_Cons [of x ids])
  qed
  have r: "?r1 @ filter (\<lambda>k. \<not> includes_dot k \<or> getParentId k \<notin> fst ` set m1) ids =
           roots @ filter (\<lambda>k. \<not> includes_dot k \<or> getParentId k \<notin> ?K) (x # ids)"
    unfolding K1 by simp
  have "fold attach (x # ids) (m, roots) = fold attach ids (m1, ?r1)"
    by (simp add: h1a)
  then have A: "fold attach (x # ids) (m, roots) =
          (m', roots @ filter (\<lambda>k. \<not> includes_dot k \<or> getParentId k \<notin> ?K) (x # ids))"
    unfolding h2a r .
  have B: "map fst m' = map fst m" unfolding h2b h1b ..
  show ?case by (rule exI [of _ m']) (intro conjI A B l)
qed


lemma those_eq_Some: "those xs = Some ys \<longleftrightarrow> xs = map Some ys"
  by (induction xs arbitrary: ys) (auto split: option.splits)

lemma resolve_Suc:
  "resolve n m k = Some T \<Longrightarrow> resolve (Suc n) m k = Some T"
proof (induction n arbitrary: k T)
  case 0
  then show ?case by simp
next
  case (Suc n)
  from Suc.prems obtain ob subs where
    ob: "map_of m k = Some ob"
    and subs: "those (map (resolve n m) (obj_subtasks ob)) = Some subs"
    and T: "T = Task (obj_id ob) (obj_status ob) (obj_parentId ob) (obj_fields ob) subs"
    by (auto split: option.splits)
  have "map (resolve n m) (obj_subtasks ob) = map Some subs"
    using subs by (simp add: those_eq_Some)
  then have "map (resolve (Suc n) m) (obj_subtasks ob) = map Some subs"
    using Suc.IH by (auto simp: list_eq_iff_nth_eq)
  then have "those (map (resolve (Suc n) m) (obj_subtasks ob)) = Some subs"
    by (simp add: those_eq_Some)
  then show ?case using ob T by simp
qed

lemma resolve_le:
  "n \<le> n' \<Longrightarrow> resolve n m k = Some T \<Longrightarrow> resolve n' m k = Some T"
proof (induction n')
  case 0
  then show ?case by simp
next
  case (Suc n')
  show ?case
  proof (cases "n = Suc n'")
    case True
    then show ?thesis using Suc.prems by simp
  next
    case False
    then have "n \<le> n'" using Suc.prems by simp
    then have "resolve n' m k = Some T" using Suc.IH Suc.prems by simp
    then show ?thesis by (rule resolve_Suc)
  qed
qed

lemma resolve_fields:
  assumes "resolve n m k = Some T"
  shows "\<exists>ob n'. map_of m k = Some ob \<and> n = Suc n' \<and>
           task_id T = obj_id ob \<and> task_status T = obj_status ob \<and>
           task_parentId T = obj_parentId ob \<and> task_fields T = obj_fields ob \<and>
           map (resolve n' m) (obj_subtasks ob) = map Some (task_subtasks T)"
  using assms by (cases n) (auto split: option.splits simp: those_eq_Some)

lemma resolve_total:
  assumes inv: "\<forall>k ob. map_of m k = Some ob \<longrightarrow>
                  (\<forall>c \<in> set (obj_subtasks ob). c \<in> fst ` set m \<and> length k < length c)"
    and bound: "\<forall>k \<in> fst ` set m. length k < N"
  shows "k \<in> fst ` set m \<Longrightarrow> N \<le> n + length k \<Longrightarrow> \<exists>T. resolve n m k = Some T"
proof (induction n arbitrary: k)
  case 0
  then show ?case using bound by auto
next
  case (Suc n)
  obtain ob where ob: "map_of m k = Some ob"
    using Suc.prems(1) by (metis domD dom_map_of_conv_image_fst)
  have "\<forall>c \<in> set (obj_subtasks ob). \<exists>T. resolve n m c = Some T"
  proof
    fix c assume c: "c \<in> set (obj_subtasks ob)"
    then have "c \<in> fst ` set m" and "length k < length c" using inv ob by auto
    then show "\<exists>T. resolve n m c = Some T" using Suc.IH [of c] Suc.prems(2) by simp
  qed
  then have "map (resolve n m) (obj_subtasks ob) =
             map Some (map (\<lambda>c. the (resolve n m c)) (obj_subtasks ob))"
    by auto
  then have "those (map (resolve n m) (obj_subtasks ob)) =
             Some (map (\<lambda>c. the (resolve n m c)) (obj_subtasks ob))"
    by (simp only: those_eq_Some)
  then show ?case using ob by simp
qed

lemma foldr_max_ge: "x \<in> set xs \<Longrightarrow> x \<le> foldr max xs (0::nat)"
  by (induction xs) auto

lemma depth_bound_gt: "k \<in> fst ` set m \<Longrightarrow> length k < depth_bound m"
proof -
  assume "k \<in> fst ` set m"
  then have "length k \<in> set (map (length \<circ> fst) m)" by auto
  then show ?thesis unfolding depth_bound_def by (rule foldr_max_ge [THEN le_imp_less_Suc])
qed

lemma all_tasks_roots: "set F \<subseteq> set (all_tasks F)"
  by (induction F rule: all_tasks.induct) auto

lemma all_tasks_closed:
  "T \<in> set (all_tasks F) \<Longrightarrow> set (task_subtasks T) \<subseteq> set (all_tasks F)"
proof (induction F rule: all_tasks.induct)
  case 1
  then show ?case by simp
next
  case (2 i s p f subs ts)
  then show ?case using all_tasks_roots [of subs] by auto
qed


lemma first_pass_values:
  assumes "map_of (first_pass ts) k = Some ob"
  shows "\<exists>t \<in> set ts. task_id t = k \<and> ob = copy_task t"
proof -
  have "map_of (map (\<lambda>t. (task_id t, copy_task t)) (rev ts)) k = Some ob"
    using assms by (simp add: first_pass_def map_of_foldl_set split: option.splits)
  then have "(k, ob) \<in> set (map (\<lambda>t. (task_id t, copy_task t)) (rev ts))"
    by (rule map_of_SomeD)
  then show ?thesis by auto
qed

lemma key_lookup: "k \<in> fst ` set m \<Longrightarrow> \<exists>ob. map_of m k = Some ob"
  by (induction m) auto

lemma lookup_key: "map_of m k = Some ob \<Longrightarrow> k \<in> fst ` set m"
  by (induction m) (auto split: if_splits)

lemma hierarchy_core:
  assumes d: "distinct (map task_id ts)"
  shows "\<exists>m' roots forest.
     second_pass (sort_with (compare_ids lc) (map fst (first_pass ts))) (first_pass ts) = (m', roots)
     \<and> those (map (resolve (depth_bound m') m') roots) = Some forest
     \<and> (\<forall>t \<in> set ts. \<exists>T \<in> set (all_tasks forest).
           task_id T = task_id t \<and> task_status T = task_status t \<and> task_fields T = task_fields t \<and>
           (if includes_dot (task_id t) \<and> getParentId (task_id t) \<in> task_id ` set ts
            then task_parentId T = Some (getParentId (task_id t)) \<and>
                 (\<exists>P \<in> set (all_tasks forest).
                    task_id P = getParentId (task_id t) \<and> T \<in> set (task_subtasks P))
            else task_parentId T = task_parentId t \<and> T \<in> set forest))"
proof -
  define K where "K = task_id ` set ts"
  define m0 where "m0 = first_pass ts"
  define ids where "ids = sort_with (compare_ids lc) (map fst m0)"
  have K0: "fst ` set m0 = K" by (simp add: first_pass_keys K_def m0_def)
  have ids_set: "set ids = K" unfolding ids_def set_sort_with using K0 by simp
  have sub: "set ids \<subseteq> fst ` set m0" using ids_set K0 by simp
  from fold_attach [OF sub, of "[]"] obtain m' where
    fa: "fold attach ids (m0, []) =
           (m', [] @ filter (\<lambda>k. \<not> includes_dot k \<or> getParentId k \<notin> fst ` set m0) ids) \<and>
         map fst m' = map fst m0 \<and>
         (\<forall>k. map_of m' k = map_option (attached ids (fst ` set m0) k) (map_of m0 k))" ..
  define roots where "roots = filter (\<lambda>k. \<not> includes_dot k \<or> getParentId k \<notin> K) ids"
  have sp: "second_pass ids m0 = (m', roots)"
    using fa by (simp add: second_pass_def roots_def K0)
  have keys': "map fst m' = map fst m0" using fa by (elim conjE)
  have K': "fst ` set m' = K" using keys' K0 by (metis set_map)
  have look: "map_of m' k = map_option (attached ids K k) (map_of m0 k)" for k
    using fa K0 by simp
  have kids: "obj_subtasks ob = filter (\<lambda>c. includes_dot c \<and> getParentId c = k) ids"
    if "map_of m' k = Some ob" for k ob
  proof -
    from that obtain ob0 where ob0: "map_of m0 k = Some ob0" and ob: "ob = attached ids K k ob0"
      unfolding look by (cases "map_of m0 k") auto
    have "obj_subtasks ob0 = []"
      using first_pass_values [of ts k ob0] ob0 by (auto simp: m0_def copy_task_def)
    then show ?thesis using ob by (simp add: attached_def)
  qed
  have inv: "\<forall>k ob. map_of m' k = Some ob \<longrightarrow>
               (\<forall>c \<in> set (obj_subtasks ob). c \<in> fst ` set m' \<and> length k < length c)"
    using kids ids_set K' getParentId_shorter by auto
  define N where "N = depth_bound m'"
  have bound: "\<forall>k \<in> fst ` set m'. length k < N"
    unfolding N_def using depth_bound_gt by blast
  have total: "\<exists>T. resolve n m' k = Some T" if "k \<in> K" and "N \<le> n + length k" for k n
    using resolve_total [OF inv bound, of k n] that K' by simp
  define R where "R k = the (resolve N m' k)" for k
  have RN: "resolve N m' k = Some (R k)" if "k \<in> K" for k
    using total [of k N] that by (auto simp: R_def)
  have Rsub: "task_subtasks (R k) = map R (obj_subtasks ob)"
    if kK: "k \<in> K" and ob: "map_of m' k = Some ob" for k ob
  proof -
    from resolve_fields [OF RN [OF kK]] ob obtain n' where
      n': "N = Suc n'" and sb: "map (resolve n' m') (obj_subtasks ob) = map Some (task_subtasks (R k))"
      by auto
    have "resolve n' m' c = Some (R c)" if "c \<in> set (obj_subtasks ob)" for c
    proof -
      have cK: "c \<in> K" and lc: "length k < length c" using inv ob that K' by auto
      have "N \<le> n' + length c" using n' lc bound kK K' by auto
      then obtain T where T: "resolve n' m' c = Some T" using total [OF cK] by blast
      then have "resolve N m' c = Some T" using resolve_le [of n' N m' c T] n' by simp
      then show ?thesis using RN [OF cK] T by simp
    qed
    then have "map (resolve n' m') (obj_subtasks ob) = map Some (map R (obj_subtasks ob))"
      by simp
    then have "map Some (task_subtasks (R k)) = map Some (map R (obj_subtasks ob))"
      using sb by simp
    then show ?thesis by (rule map_injective) simp
  qed
  define forest where "forest = map R roots"
  have roots_sub: "set roots \<subseteq> K" using ids_set by (auto simp: roots_def)
  have "map (resolve N m') roots = map Some forest"
    using roots_sub RN by (auto simp: forest_def)
  then have th: "those (map (resolve N m') roots) = Some forest"
    by (simp only: those_eq_Some)
  have child: "R k \<in> set (task_subtasks (R (getParentId k)))"
    if kK: "k \<in> K" and dot: "includes_dot k" and pK: "getParentId k \<in> K" for k
  proof -
    obtain obp where obp: "map_of m' (getParentId k) = Some obp"
      using key_lookup [of "getParentId k" m'] pK K' by auto
    have "k \<in> set (obj_subtasks obp)" using kids [OF obp] kK dot ids_set by simp
    then show ?thesis using Rsub [OF pK obp] by simp
  qed
  have reach: "k \<in> K \<Longrightarrow> R k \<in> set (all_tasks forest)" for k
  proof (induction k rule: measure_induct_rule [where f = length])
    case (less k)
    show ?case
    proof (cases "k \<in> set roots")
      case True
      then have "R k \<in> set forest" by (simp add: forest_def)
      then show ?thesis using all_tasks_roots [of forest] by auto
    next
      case False
      then have dot: "includes_dot k" and pK: "getParentId k \<in> K"
        using less.prems ids_set by (auto simp: roots_def)
      have "R (getParentId k) \<in> set (all_tasks forest)"
        using less.IH [of "getParentId k"] getParentId_shorter [OF dot] pK by simp
      then show ?thesis
        using all_tasks_closed [of "R (getParentId k)" forest] child [OF less.prems dot pK]
        by auto
    qed
  qed
  have fields: "task_id (R (task_id t)) = task_id t \<and> task_status (R (task_id t)) = task_status t \<and>
      task_fields (R (task_id t)) = task_fields t \<and>
      task_parentId (R (task_id t)) =
        (if includes_dot (task_id t) \<and> getParentId (task_id t) \<in> K
         then Some (getParentId (task_id t)) else task_parentId t)"
    if "t \<in> set ts" for t
  proof -
    have kK: "task_id t \<in> K" using that by (simp add: K_def)
    have "map_of m0 (task_id t) = Some (copy_task t)"
      unfolding m0_def using first_pass_lookup [OF d that] .
    then have "map_of m' (task_id t) = Some (attached ids K (task_id t) (copy_task t))"
      unfolding look by simp
    then show ?thesis
      using resolve_fields [OF RN [OF kK]] kK ids_set
      by (auto simp: attached_def copy_task_def)
  qed
  have main: "\<forall>t \<in> set ts. \<exists>T \<in> set (all_tasks forest).
           task_id T = task_id t \<and> task_status T = task_status t \<and> task_fields T = task_fields t \<and>
           (if includes_dot (task_id t) \<and> getParentId (task_id t) \<in> task_id ` set ts
            then task_parentId T = Some (getParentId (task_id t)) \<and>
                 (\<exists>P \<in> set (all_tasks forest).
                    task_id P = getParentId (task_id t) \<and> T \<in> set (task_subtasks P))
            else task_parentId T = task_parentId t \<and> T \<in> set forest)"
  proof
    fix t assume t: "t \<in> set ts"
    let ?k = "task_id t"
    have kK: "?k \<in> K" using t by (simp add: K_def)
    note f = fields [OF t]
    show "\<exists>T \<in> set (all_tasks forest).
           task_id T = task_id t \<and> task_status T = task_status t \<and> task_fields T = task_fields t \<and>
           (if includes_dot (task_id t) \<and> getParentId (task_id t) \<in> task_id ` set ts
            then task_parentId T = Some (getParentId (task_id t)) \<and>
                 (\<exists>P \<in> set (all_tasks forest).
                    task_id P = getParentId (task_id t) \<and> T \<in> set (task_subtasks P))
            else task_parentId T = task_parentId t \<and> T \<in> set forest)"
    proof (cases "includes_dot ?k \<and> getParentId ?k \<in> K")
      case True
      then obtain tp where tp: "tp \<in> set ts" and tpid: "task_id tp = getParentId ?k"
        by (auto simp: K_def)
      have pid: "task_id (R (getParentId ?k)) = getParentId ?k"
        using fields [OF tp] tpid by simp
      have "R (getParentId ?k) \<in> set (all_tasks forest)" using reach True by simp
      moreover have "R ?k \<in> set (task_subtasks (R (getParentId ?k)))"
        using child [OF kK] True by simp
      ultimately show ?thesis
        using reach [OF kK] f True pid unfolding K_def [symmetric]
        by (intro bexI [of _ "R ?k"]) auto
    next
      case False
      then have "?k \<in> set roots" using kK ids_set by (auto simp: roots_def)
      then have "R ?k \<in> set forest" by (simp add: forest_def)
      then show ?thesis
        using reach [OF kK] f False unfolding K_def [symmetric]
        by (intro bexI [of _ "R ?k"]) auto
    qed
  qed
  show ?thesis
    using sp th main unfolding ids_def m0_def N_def by blast
qed

text \<open>
  Claim C3, as stated: for every task list without subtasks arrays and with a dotted id,
  every dotted-id task is attached to its parent or, when the parent id is absent,
  returned as a root rather than dropped. The store is keyed by id, so of two tasks with
  the same id the first is overwritten: of the two tasks \<open>2.5\<close> (no task \<open>2\<close>) only the
  second is returned.
\<close>

theorem C3_duplicate_id_dropped_counterexample:
  "\<not> hasExistingSubtasks duplicate_tasks \<and> hasDotNotationTasks duplicate_tasks \<and>
   map task_id duplicate_tasks = [''2.5'', ''2.5''] \<and>
   map task_fields duplicate_tasks = [''first'', ''second''] \<and>
   processTaskHierarchy compare_codepoints duplicate_tasks =
     Some [Task ''2.5'' (Str ''todo'') None ''second'' []]"
  by code_simp

text \<open>
  Claim C3, amended: for every task list with pairwise distinct ids in which no task
  carries a non-empty subtasks array and at least one id contains a dot, the builder
  returns a forest in which every dotted-id task whose parent id (the part before its
  last dot) is an id of the input appears, with its own fields and with \<open>parentId\<close> set to
  the parent id, among the subtasks of the task of that id, which is itself in the
  forest; and every dotted-id task whose parent id is absent is one of the roots,
  unchanged.
\<close>

theorem C3_processTaskHierarchy_attaches:
  assumes "\<not> hasExistingSubtasks ts"
    and "hasDotNotationTasks ts"
    and "distinct (map task_id ts)"
  shows "\<exists>forest. processTaskHierarchy localeCompare ts = Some forest \<and>
     (\<forall>t \<in> set ts. includes_dot (task_id t) \<longrightarrow>
        (if getParentId (task_id t) \<in> task_id ` set ts
         then \<exists>P \<in> set (all_tasks forest). task_id P = getParentId (task_id t) \<and>
                (\<exists>T \<in> set (task_subtasks P).
                   task_id T = task_id t \<and> task_parentId T = Some (getParentId (task_id t)) \<and>
                   task_status T = task_status t \<and> task_fields T = task_fields t)
         else \<exists>T \<in> set forest.
                task_id T = task_id t \<and> task_parentId T = task_parentId t \<and>
                task_status T = task_status t \<and> task_fields T = task_fields t))"
proof -
  from hierarchy_core [OF assms(3), of localeCompare] obtain m' roots forest where
    sp: "second_pass (sort_with (compare_ids localeCompare) (map fst (first_pass ts)))
           (first_pass ts) = (m', roots)"
    and th: "those (map (resolve (depth_bound m') m') roots) = Some forest"
    and main: "\<forall>t \<in> set ts. \<exists>T \<in> set (all_tasks forest).
           task_id T = task_id t \<and> task_status T = task_status t \<and> task_fields T = task_fields t \<and>
           (if includes_dot (task_id t) \<and> getParentId (task_id t) \<in> task_id ` set ts
            then task_parentId T = Some (getParentId (task_id t)) \<and>
                 (\<exists>P \<in> set (all_tasks forest).
                    task_id P = getParentId (task_id t) \<and> T \<in> set (task_subtasks P))
            else task_parentId T = task_parentId t \<and> T \<in> set forest)"
    by blast
  have res: "processTaskHierarchy localeCompare ts = Some forest"
    using assms(1,2) sp th by (simp add: processTaskHierarchy_def Let_def)
  have "\<forall>t \<in> set ts. includes_dot (task_id t) \<longrightarrow>
        (if getParentId (task_id t) \<in> task_id ` set ts
         then \<exists>P \<in> set (all_tasks forest). task_id P = getParentId (task_id t) \<and>
                (\<exists>T \<in> set (task_subtasks P).
                   task_id T = task_id t \<and> task_parentId T = Some (getParentId (task_id t)) \<and>
                   task_status T = task_status t \<and> task_fields T = task_fields t)
         else \<exists>T \<in> set forest.
                task_id T = task_id t \<and> task_parentId T = task_parentId t \<and>
                task_status T = task_status t \<and> task_fields T = task_fields t)"
  proof (intro ballI impI)
    fix t assume t: "t \<in> set ts" and dot: "includes_dot (task_id t)"
    from main t obtain T where
      T: "task_id T = task_id t \<and> task_status T = task_status t \<and> task_fields T = task_fields t \<and>
           (if includes_dot (task_id t) \<and> getParentId (task_id t) \<in> task_id ` set ts
            then task_parentId T = Some (getParentId (task_id t)) \<and>
                 (\<exists>P \<in> set (all_tasks forest).
                    task_id P = getParentId (task_id t) \<and> T \<in> set (task_subtasks P))
            else task_parentId T = task_parentId t \<and> T \<in> set forest)"
      by blast
    show "if getParentId (task_id t) \<in> task_id ` set ts
         then \<exists>P \<in> set (all_tasks forest). task_id P = getParentId (task_id t) \<and>
                (\<exists>T \<in> set (task_subtasks P).
                   task_id T = task_id t \<and> task_parentId T = Some (getParentId (task_id t)) \<and>
                   task_status T = task_status t \<and> task_fields T = task_fields t)
         else \<exists>T \<in> set forest.
                task_id T = task_id t \<and> task_parentId T = task_parentId t \<and>
                task_status T = task_status t \<and> task_fields T = task_fields t"
    proof (cases "getParentId (task_id t) \<in> task_id ` set ts")
      case True
      then obtain P where "P \<in> set (all_tasks forest)"
        and "task_id P = getParentId (task_id t)" and "T \<in> set (task_subtasks P)"
        using T dot by auto
      then show ?thesis using True T dot by auto
    next
      case False
      then show ?thesis using T by auto
    qed
  qed
  then show ?thesis using res by blast
qed

theorem C3_processTaskHierarchy_attaches_witness:
  "\<not> hasExistingSubtasks flat_tasks \<and> hasDotNotationTasks flat_tasks \<and>
   distinct (map task_id flat_tasks) \<and>
   processTaskHierarchy compare_codepoints flat_tasks =
     Some [Task ''1'' (Str ''in-progress'') None ''Parent''
             [Task ''1.1'' (Str ''completed'') (Some ''1'') ''First'' [],
              Task ''1.2'' (Str ''todo'') (Some ''1'') ''Second''
                [Task ''1.2.1'' (Str ''todo'') (Some ''1.2'') ''Deep'' []]],
           Task ''2.5'' (Str ''todo'') None ''Orphan'' []]"
proof -
  have h1: "\<not> hasExistingSubtasks flat_tasks" by code_simp
  have h2: "hasDotNotationTasks flat_tasks" by code_simp
  have h3: "distinct (map task_id flat_tasks)" by code_simp
  have r: "processTaskHierarchy compare_codepoints flat_tasks =
     Some [Task ''1'' (Str ''in-progress'') None ''Parent''
             [Task ''1.1'' (Str ''completed'') (Some ''1'') ''First'' [],
              Task ''1.2'' (Str ''todo'') (Some ''1'') ''Second''
                [Task ''1.2.1'' (Str ''todo'') (Some ''1.2'') ''Deep'' []]],
           Task ''2.5'' (Str ''todo'') None ''Orphan'' []]"
    by code_simp
  show ?thesis
    using C3_processTaskHierarchy_attaches [OF h1 h2 h3, of compare_codepoints] h1 h2 h3 r
    by simp
qed

end
